theory Spec2Isabelle
  imports Main "HOL-Library.AList" "HOL-Library.Sublist"
begin

section \<open>Order reconciliation of the lunch-ordering app\<close>

text \<open>
  This theory embeds \<^verbatim>\<open>updateOrders\<close> of \<^verbatim>\<open>src/redux/Actions.js\<close> and
  \<^verbatim>\<open>focusOrderNavigate\<close>, \<^verbatim>\<open>getOrdersArr\<close> of
  \<^verbatim>\<open>src/screens/main/authenticated/HomeScreen.js\<close>.

  JavaScript values are a datatype; an object is an association list in the order
  in which its properties were created. Assigning a property (\<^verbatim>\<open>o[k] = v\<close>, and
  the spread \<^verbatim>\<open>{...o, [k]: v}\<close>) is \<^term>\<open>AList.update\<close>: it replaces the value
  of an existing property in place and appends a new property at the end.
  \<^verbatim>\<open>delete o.k\<close> is \<^term>\<open>AList.delete\<close>. Numbers are integers: the code
  computes with counters and array positions only, and no function below reads a
  number out of a stored document, so fractions, \<^verbatim>\<open>NaN\<close> and the infinities are
  left out. Document identifiers and
  dates are not array indices in decimal, which JavaScript would list first and in
  numeric order; the positions of the groups are assigned in increasing order, so
  for them creation order and numeric order agree.
\<close>

subsection \<open>Values and documents\<close>

datatype jsval =
    JUndefined
  | JNull
  | JBool bool
  | JNum int
  | JStr string
  | JArr "jsval list"
  | JObj "(string \<times> jsval) list"

type_synonym obj = "(string \<times> jsval) list"

text \<open>Reading a property: a missing property reads \<^verbatim>\<open>undefined\<close>.\<close>

definition field :: "obj \<Rightarrow> string \<Rightarrow> jsval" where
  "field ob k = (case map_of ob k of None \<Rightarrow> JUndefined | Some v \<Rightarrow> v)"

text \<open>Reading a property of any value; only objects have own properties here.\<close>

definition propOf :: "jsval \<Rightarrow> string \<Rightarrow> jsval" where
  "propOf v k = (case v of JObj ob \<Rightarrow> field ob k | _ \<Rightarrow> JUndefined)"

text \<open>The spread \<^verbatim>\<open>{...v}\<close> of a value: the properties of an object, none of a number.\<close>

definition spread :: "jsval \<Rightarrow> obj" where
  "spread v = (case v of JObj ob \<Rightarrow> ob | _ \<Rightarrow> [])"

text \<open>A document of a Firestore query snapshot: \<^verbatim>\<open>doc.id\<close> and \<^verbatim>\<open>doc.data()\<close>.\<close>

record doc =
  doc_id :: string
  doc_data :: obj

text \<open>
  A schedule group is an array of ISO date strings. \<^verbatim>\<open>group[0]\<close> and
  \<^verbatim>\<open>group[group.length - 1]\<close> read \<^verbatim>\<open>undefined\<close> on the empty array.
\<close>

type_synonym scheduleGroup = "string list"

definition arrFirst :: "scheduleGroup \<Rightarrow> jsval" where
  "arrFirst g = (case g of [] \<Rightarrow> JUndefined | d # _ \<Rightarrow> JStr d)"

definition arrLast :: "scheduleGroup \<Rightarrow> jsval" where
  "arrLast g = (if g = [] then JUndefined else JStr (last g))"

text \<open>\<^verbatim>\<open>group.includes(v)\<close>: strict equality with a member; members are strings.\<close>

definition arrIncludes :: "scheduleGroup \<Rightarrow> jsval \<Rightarrow> bool" where
  "arrIncludes g v = (case v of JStr s \<Rightarrow> s \<in> set g | _ \<Rightarrow> False)"

subsection \<open>Configuration and the imported helpers\<close>

datatype OrderScheduleTypes = DAILY | CUSTOM

text \<open>
  \<^verbatim>\<open>orderSchedule\<close> and \<^verbatim>\<open>lunchSchedule\<close> are configuration objects. The code
  under study reads \<^verbatim>\<open>orderSchedule.scheduleType\<close> (absent in the default
  \<^verbatim>\<open>{}\<close>), \<^verbatim>\<open>lunchSchedule.schedule\<close> and \<^verbatim>\<open>lunchSchedule.dependent\<close>; the
  remaining content is read by the helpers only.
\<close>

record 'r OrderSchedule =
  scheduleType :: "OrderScheduleTypes option"
  orderRules :: 'r

record 's LunchSchedule =
  dependent :: bool
  schedule :: 's

text \<open>
  A moment (of the moment library) is an instant in milliseconds, or invalid
  (\<^const>\<open>None\<close>). \<^verbatim>\<open>a.isSameOrAfter(b)\<close> is false as soon as one side is invalid;
  \<^verbatim>\<open>a.diff(b)\<close> is \<^verbatim>\<open>NaN\<close> (\<^const>\<open>None\<close>) as soon as one side is invalid.
\<close>

type_synonym moment = "int option"

definition isSameOrAfter :: "moment \<Rightarrow> moment \<Rightarrow> bool" where
  "isSameOrAfter a b =
     (case a of None \<Rightarrow> False
      | Some x \<Rightarrow> (case b of None \<Rightarrow> False | Some y \<Rightarrow> y \<le> x))"

definition diff :: "moment \<Rightarrow> moment \<Rightarrow> int option" where
  "diff a b =
     (case a of None \<Rightarrow> None
      | Some x \<Rightarrow> (case b of None \<Rightarrow> None | Some y \<Rightarrow> Some (x - y)))"

text \<open>
  \<^verbatim>\<open>constants/Schedule.js\<close> and \<^verbatim>\<open>constants/Date.js\<close> are imported by the two
  files and are not embedded here: the functions they export are parameters of
  the model, with the signatures of their call sites. The record
  also holds what the code reads from the clock and from the moment library:
  \<^item> \<open>today\<close> is \<^verbatim>\<open>moment().format(ISO_FORMAT)\<close>, the current day, read from the
    clock inside \<^verbatim>\<open>updateOrders\<close>;
  \<^item> \<open>maxISO vs\<close> is \<^verbatim>\<open>moment.max(vs.map(v => moment(v))).format(ISO_FORMAT)\<close>;
  \<^item> \<open>momentOf v\<close> is \<^verbatim>\<open>moment(v)\<close>, the conversion \<^verbatim>\<open>diff\<close> applies to its
    argument;
  \<^item> \<open>engineSort cmp vs\<close> is what \<^verbatim>\<open>vs.sort(cmp)\<close> returns in the JavaScript
    engine that runs the app when \<open>cmp\<close> is not a consistent comparator: the language
    leaves that order to the engine.
  \<^verbatim>\<open>getCutoffDate(orderSchedule)\<close> and \<^verbatim>\<open>isBeforeCutoff(group, ...)\<close> take no time
  argument: what they return is their value at the time of the call.
\<close>

record ('r, 's) Schedule =
  today :: string
  maxISO :: "jsval list \<Rightarrow> string"
  momentOf :: "jsval \<Rightarrow> moment"
  parseISO :: "jsval \<Rightarrow> moment"
  toReadable :: "jsval \<Rightarrow> string"
  toSimple :: "jsval \<Rightarrow> string"
  getCutoffDate :: "'r OrderSchedule \<Rightarrow> moment"
  getValidOrderDates ::
    "(string \<times> obj) list \<Rightarrow> jsval \<Rightarrow> 'r OrderSchedule \<Rightarrow> 's LunchSchedule
       \<Rightarrow> string \<Rightarrow> string \<Rightarrow> scheduleGroup list"
  getLunchSchedule ::
    "'r OrderSchedule \<Rightarrow> 's LunchSchedule \<Rightarrow> string \<Rightarrow> string \<Rightarrow> string list"
  getScheduleGroups :: "string list \<Rightarrow> 's \<Rightarrow> scheduleGroup list"
  isBeforeCutoff :: "scheduleGroup \<Rightarrow> 'r OrderSchedule \<Rightarrow> 's LunchSchedule \<Rightarrow> bool"
  engineSort :: "(jsval \<Rightarrow> jsval \<Rightarrow> int option) \<Rightarrow> jsval list \<Rightarrow> jsval list"

subsection \<open>The orders state\<close>

text \<open>
  With a CUSTOM schedule an entry of the orders state is
  \<^verbatim>\<open>{ date: group, key: i, index, keys: relevantKeys, [d1]: order1, ... }\<close>.
  The four fixed properties are the fields of a record; the properties named by
  dates are kept apart in \<open>days\<close>, in creation order (a date string is never
  one of the four fixed names).
\<close>

record groupOrder =
  date :: scheduleGroup
  key :: nat
  index :: int
  keys :: "string list"
  days :: "(string \<times> obj) list"

text \<open>
  The orders state is an object: keyed by document id and holding order records
  (\<^verbatim>\<open>orders = collectionData\<close>), or keyed by group position and holding group
  entries.
\<close>

datatype orderKey = DocId string | GroupIx nat

datatype orderVal = Single obj | Grouped groupOrder

type_synonym orders = "(orderKey \<times> orderVal) list"

subsection \<open>\<^verbatim>\<open>updateOrders\<close>: filtering the snapshot\<close>

text \<open>
  \<^verbatim>\<open>let data = { ...doc.data(), key: doc.id }; delete data.uid;\<close>
\<close>

definition docRecord :: "doc \<Rightarrow> obj" where
  "docRecord d = AList.delete ''uid'' (AList.update ''key'' (JStr (doc_id d)) (doc_data d))"

text \<open>\<^verbatim>\<open>parseISO(data.date).isSameOrAfter(cutoffDate)\<close>\<close>

definition survives :: "('r, 's) Schedule \<Rightarrow> moment \<Rightarrow> obj \<Rightarrow> bool" where
  "survives H cutoffDate data = isSameOrAfter (parseISO H (field data ''date'')) cutoffDate"

text \<open>
  One round of \<^verbatim>\<open>querySnapshot.forEach\<close>: the record enters
  \<^verbatim>\<open>collectionData\<close> when it passes the test.
\<close>

definition collectDoc ::
  "('r, 's) Schedule \<Rightarrow> moment \<Rightarrow> doc \<Rightarrow> (string \<times> obj) list \<Rightarrow> (string \<times> obj) list" where
  "collectDoc H cutoffDate d collectionData =
     (let data = docRecord d in
        if survives H cutoffDate data
        then AList.update (doc_id d) data collectionData
        else collectionData)"

definition collectionDataOf ::
  "('r, 's) Schedule \<Rightarrow> doc list \<Rightarrow> 'r OrderSchedule \<Rightarrow> (string \<times> obj) list" where
  "collectionDataOf H querySnapshot orderSchedule =
     fold (collectDoc H (getCutoffDate H orderSchedule)) querySnapshot []"

subsection \<open>\<^verbatim>\<open>updateOrders\<close>: walking the groups\<close>

text \<open>
  \<^verbatim>\<open>availableScheduleGroups.some((availableGroup) => availableGroup[0] === group[0])\<close>
\<close>

definition isAvailable :: "scheduleGroup list \<Rightarrow> scheduleGroup \<Rightarrow> bool" where
  "isAvailable availableScheduleGroups grp =
     list_ex (\<lambda>availableGroup. arrFirst availableGroup = arrFirst grp) availableScheduleGroups"

text \<open>
  \<^verbatim>\<open>collectionDataKeys.filter((key) => group.includes(collectionData[key].date))\<close>
\<close>

definition relevantKeys :: "(string \<times> obj) list \<Rightarrow> scheduleGroup \<Rightarrow> string list" where
  "relevantKeys collectionData grp =
     filter (\<lambda>k. case map_of collectionData k of
                    None \<Rightarrow> False
                  | Some r \<Rightarrow> arrIncludes grp (field r ''date''))
            (map fst collectionData)"

text \<open>
  The property name \<^verbatim>\<open>[collectionData[id].date]\<close>. Only records whose date is a
  string of the group reach it.
\<close>

definition dateKey :: "obj \<Rightarrow> string" where
  "dateKey r = (case field r ''date'' of JStr s \<Rightarrow> s | _ \<Rightarrow> ''undefined'')"

text \<open>
  \<^verbatim>\<open>for (const id of relevantKeys) orders[i] = { ...orders[i], [collectionData[id].date]: collectionData[id] }\<close>
\<close>

definition addDay :: "(string \<times> obj) list \<Rightarrow> string \<Rightarrow> groupOrder \<Rightarrow> groupOrder" where
  "addDay collectionData ident e =
     (case map_of collectionData ident of
        None \<Rightarrow> e
      | Some r \<Rightarrow> e\<lparr>days := AList.update (dateKey r) r (days e)\<rparr>)"

definition groupEntry ::
  "(string \<times> obj) list \<Rightarrow> scheduleGroup \<Rightarrow> nat \<Rightarrow> int \<Rightarrow> string list \<Rightarrow> groupOrder" where
  "groupEntry collectionData grp i idx rks =
     fold (addDay collectionData) rks
       \<lparr>date = grp, key = i, index = idx, keys = rks, days = []\<rparr>"

text \<open>
  \<^verbatim>\<open>allScheduleGroups.forEach((group, i) => ...)\<close> with the two variables it
  mutates, the counter \<^verbatim>\<open>index\<close> and the object \<^verbatim>\<open>orders\<close>; \<open>i\<close> is the
  position of the head of the remaining groups.
\<close>

fun walkGroups ::
  "(string \<times> obj) list \<Rightarrow> scheduleGroup list \<Rightarrow> nat \<Rightarrow> scheduleGroup list
     \<Rightarrow> int \<Rightarrow> orders \<Rightarrow> int \<times> orders" where
  "walkGroups collectionData avail i [] idx ords = (idx, ords)"
| "walkGroups collectionData avail i (grp # rest) idx ords =
     (if isAvailable avail grp
      then walkGroups collectionData avail (Suc i) rest (idx + 1) ords
      else
        (let rks = relevantKeys collectionData grp in
           if length rks > 0
           then walkGroups collectionData avail (Suc i) rest idx
                  (AList.update (GroupIx i)
                     (Grouped (groupEntry collectionData grp i idx rks)) ords)
           else walkGroups collectionData avail (Suc i) rest idx ords))"

text \<open>
  \<^verbatim>\<open>includesCutoff = availableScheduleGroups.length > 0 && !isBeforeCutoff(availableScheduleGroups[0], ...)\<close>
  and \<^verbatim>\<open>let index = includesCutoff ? -1 : 0\<close>.
\<close>

definition includesCutoff ::
  "('r, 's) Schedule \<Rightarrow> scheduleGroup list \<Rightarrow> 'r OrderSchedule \<Rightarrow> 's LunchSchedule \<Rightarrow> bool" where
  "includesCutoff H avail orderSchedule lunchSchedule =
     (case avail of
        [] \<Rightarrow> False
      | g # _ \<Rightarrow> \<not> isBeforeCutoff H g orderSchedule lunchSchedule)"

definition startIndex ::
  "('r, 's) Schedule \<Rightarrow> scheduleGroup list \<Rightarrow> 'r OrderSchedule \<Rightarrow> 's LunchSchedule \<Rightarrow> int" where
  "startIndex H avail orderSchedule lunchSchedule =
     (if includesCutoff H avail orderSchedule lunchSchedule then - 1 else 0)"

text \<open>The two group sequences the CUSTOM branch asks the helpers for.\<close>

definition snapshotDates :: "doc list \<Rightarrow> jsval list" where
  "snapshotDates querySnapshot = map (\<lambda>d. field (doc_data d) ''date'') querySnapshot"

definition availableScheduleGroups ::
  "('r, 's) Schedule \<Rightarrow> doc list \<Rightarrow> 'r OrderSchedule \<Rightarrow> 's LunchSchedule \<Rightarrow> scheduleGroup list" where
  "availableScheduleGroups H querySnapshot orderSchedule lunchSchedule =
     getValidOrderDates H (collectionDataOf H querySnapshot orderSchedule) JNull
       orderSchedule lunchSchedule (today H) (maxISO H (snapshotDates querySnapshot))"

definition allScheduleGroups ::
  "('r, 's) Schedule \<Rightarrow> doc list \<Rightarrow> 'r OrderSchedule \<Rightarrow> 's LunchSchedule \<Rightarrow> scheduleGroup list" where
  "allScheduleGroups H querySnapshot orderSchedule lunchSchedule =
     getScheduleGroups H
       (getLunchSchedule H orderSchedule lunchSchedule (today H)
          (maxISO H (snapshotDates querySnapshot)))
       (schedule lunchSchedule)"

text \<open>The branch condition of \<^verbatim>\<open>updateOrders\<close>.\<close>

definition groupsOrders ::
  "('r, 's) Schedule \<Rightarrow> doc list \<Rightarrow> 'r OrderSchedule \<Rightarrow> bool" where
  "groupsOrders H querySnapshot orderSchedule =
     (scheduleType orderSchedule = Some CUSTOM
      \<and> length (collectionDataOf H querySnapshot orderSchedule) > 0)"

text \<open>The \<open>orders\<close> of the action \<^verbatim>\<open>{ type: Actions.UPDATE_ORDERS, orders }\<close>.\<close>

definition updateOrders ::
  "('r, 's) Schedule \<Rightarrow> doc list \<Rightarrow> 'r OrderSchedule \<Rightarrow> 's LunchSchedule \<Rightarrow> orders" where
  "updateOrders H querySnapshot orderSchedule lunchSchedule =
     (let collectionData = collectionDataOf H querySnapshot orderSchedule in
        if groupsOrders H querySnapshot orderSchedule
        then
          (let avail = availableScheduleGroups H querySnapshot orderSchedule lunchSchedule;
               allGroups = allScheduleGroups H querySnapshot orderSchedule lunchSchedule
           in snd (walkGroups collectionData avail 0 allGroups
                     (startIndex H avail orderSchedule lunchSchedule) []))
        else map (\<lambda>(k, r). (DocId k, Single r)) collectionData)"

text \<open>
  Two readings of the orders state used to state its properties: the identifiers
  of the order documents it refers to (the property names of the record shape, the
  \<^verbatim>\<open>keys\<close> lists of the group shape), and the order records it holds.
\<close>

definition orderIds :: "orders \<Rightarrow> string list" where
  "orderIds ords =
     concat (map (\<lambda>(k, v). case v of Single r \<Rightarrow> (case k of DocId s \<Rightarrow> [s] | GroupIx i \<Rightarrow> [])
                                  | Grouped e \<Rightarrow> keys e) ords)"

definition orderRecords :: "orders \<Rightarrow> obj list" where
  "orderRecords ords =
     concat (map (\<lambda>(k, v). case v of Single r \<Rightarrow> [r] | Grouped e \<Rightarrow> map snd (days e)) ords)"

subsection \<open>The home screen: \<^verbatim>\<open>getOrdersArr\<close>\<close>

text \<open>
  \<^verbatim>\<open>Array.prototype.sort\<close> with a consistent comparator: the result is
  determined, the sort being stable, and it is that of inserting each element
  before the first later element it does not compare greater than. A comparator
  result \<^verbatim>\<open>NaN\<close> (\<^const>\<open>None\<close>) counts as \<open>0\<close>. \<open>jsSort\<close> stands for the two
  sorts of \<^verbatim>\<open>getOrdersArr\<close> that compare orders by their dates. The third one
  sorts the values of \<^verbatim>\<open>orderGroups\<close>, among them the number \<^verbatim>\<open>index\<close>, which
  has no date: its comparator is not consistent and its result is \<open>engineSort\<close>.
\<close>

definition positive :: "int option \<Rightarrow> bool" where
  "positive c = (case c of None \<Rightarrow> False | Some v \<Rightarrow> 0 < v)"

fun insertBy :: "('a \<Rightarrow> 'a \<Rightarrow> int option) \<Rightarrow> 'a \<Rightarrow> 'a list \<Rightarrow> 'a list" where
  "insertBy cmp x [] = [x]"
| "insertBy cmp x (y # ys) =
     (if positive (cmp x y) then y # insertBy cmp x ys else x # y # ys)"

definition jsSort :: "('a \<Rightarrow> 'a \<Rightarrow> int option) \<Rightarrow> 'a list \<Rightarrow> 'a list" where
  "jsSort cmp xs = foldr (insertBy cmp) xs []"

text \<open>
  \<^verbatim>\<open>Object.values(orders)\<close>, read at the shape the branch of \<^verbatim>\<open>getOrdersArr\<close>
  expects. \<^verbatim>\<open>updateOrders\<close> stores records only or group entries only, so for
  the state it produces nothing is left out by the branch of the same schedule
  type.
\<close>

definition recordValues :: "orders \<Rightarrow> obj list" where
  "recordValues ords =
     List.map_filter (\<lambda>(k, v). case v of Single r \<Rightarrow> Some r | Grouped e \<Rightarrow> None) ords"

definition groupValues :: "orders \<Rightarrow> groupOrder list" where
  "groupValues ords =
     List.map_filter (\<lambda>(k, v). case v of Single r \<Rightarrow> None | Grouped e \<Rightarrow> Some e) ords"

text \<open>
  An element of the array the home screen lists. For a group the item is
  \<^verbatim>\<open>{ date, key, keys, multipleOrders, data }\<close>; \<^verbatim>\<open>multipleOrders\<close> is read from
  the entry, which never has it, and is left out.
\<close>

record groupCard =
  cardDate :: string
  cardKey :: nat
  cardKeys :: "string list"
  cardData :: "obj list"

datatype screenItem = RecordItem obj | GroupItem groupCard

text \<open>\<^verbatim>\<open>(order) => ({ ...order, date: toReadable(order.date) })\<close>\<close>

definition readableOrder :: "('r, 's) Schedule \<Rightarrow> jsval \<Rightarrow> obj" where
  "readableOrder H order =
     AList.update ''date'' (JStr (toReadable H (propOf order ''date''))) (spread order)"

text \<open>\<^verbatim>\<open>(orderA, orderB) => parseISO(orderA.date).diff(orderB.date)\<close>\<close>

definition byDate :: "('r, 's) Schedule \<Rightarrow> jsval \<Rightarrow> jsval \<Rightarrow> int option" where
  "byDate H orderA orderB =
     diff (parseISO H (propOf orderA ''date'')) (momentOf H (propOf orderB ''date''))"

text \<open>\<^verbatim>\<open>(orderA, orderB) => parseISO(orderA.date[0]).diff(orderB.date[0])\<close>\<close>

definition byFirstDate :: "('r, 's) Schedule \<Rightarrow> groupOrder \<Rightarrow> groupOrder \<Rightarrow> int option" where
  "byFirstDate H orderA orderB =
     diff (parseISO H (arrFirst (date orderA))) (momentOf H (arrFirst (date orderB)))"

text \<open>
  The group branch destructures \<^verbatim>\<open>{ date, key, keys, multipleOrders, ...orderGroups }\<close>:
  \<^verbatim>\<open>orderGroups\<close> keeps \<^verbatim>\<open>index\<close> and the properties named by dates, in this
  order, and the item gets no \<^verbatim>\<open>index\<close> of its own.
\<close>

definition orderGroupsValues :: "groupOrder \<Rightarrow> jsval list" where
  "orderGroupsValues e = JNum (index e) # map (\<lambda>(d, r). JObj r) (days e)"

definition toCard :: "('r, 's) Schedule \<Rightarrow> groupOrder \<Rightarrow> groupCard" where
  "toCard H e =
     \<lparr>cardDate = toSimple H (arrFirst (date e)) @ '' to '' @ toSimple H (arrLast (date e)),
      cardKey = key e,
      cardKeys = keys e,
      cardData = map (readableOrder H) (engineSort H (byDate H) (orderGroupsValues e))\<rparr>"

definition getOrdersArr :: "('r, 's) Schedule \<Rightarrow> orders \<Rightarrow> bool \<Rightarrow> screenItem list" where
  "getOrdersArr H ords dynamicSchedule =
     (if \<not> dynamicSchedule
      then map (\<lambda>order. RecordItem (readableOrder H order))
             (jsSort (byDate H) (map JObj (recordValues ords)))
      else map (\<lambda>e. GroupItem (toCard H e))
             (jsSort (byFirstDate H) (groupValues ords)))"

subsection \<open>The home screen: \<^verbatim>\<open>focusOrderNavigate\<close>\<close>

text \<open>
  What \<^verbatim>\<open>focusOrderNavigate(id, hasTitle, index)\<close> does: the alert, or
  \<^verbatim>\<open>focusOrder(id)\<close> followed by \<^verbatim>\<open>navigation.navigate("Order", { screen })\<close>.
  The argument \<^verbatim>\<open>index\<close> is \<^verbatim>\<open>undefined\<close> (\<^const>\<open>None\<close>) or an integer, the
  values \<^verbatim>\<open>updateOrders\<close> and \<^verbatim>\<open>getOrdersArr\<close> produce; other values, which
  \<^verbatim>\<open>index && index < 0\<close> would coerce, are outside the model. \<open>dynamicMenu\<close> is
  the property of the enclosing component.
\<close>

datatype tapResult =
    Alert string string
  | FocusAndNavigate orderKey string

definition focusOrderNavigate :: "bool \<Rightarrow> orderKey \<Rightarrow> bool \<Rightarrow> int option \<Rightarrow> tapResult" where
  "focusOrderNavigate dynamicMenu ident hasTitle idx =
     (if (case idx of None \<Rightarrow> False | Some n \<Rightarrow> n \<noteq> 0 \<and> n < 0)
      then Alert ''Cannot edit order'' ''It is too late to edit this order.''
      else if hasTitle \<and> \<not> dynamicMenu
           then FocusAndNavigate ident ''Preset Order''
           else FocusAndNavigate ident ''Custom Order'')"

text \<open>
  The tap on a card of the list,
  \<^verbatim>\<open>onPress={() => focusOrderNavigate(item.key, !!item.title, item.index)}\<close>, for an
  item of the group branch of \<^verbatim>\<open>getOrdersArr\<close>: such an item has the properties
  \<^verbatim>\<open>date\<close>, \<^verbatim>\<open>key\<close>, \<^verbatim>\<open>keys\<close>, \<^verbatim>\<open>multipleOrders\<close> and \<^verbatim>\<open>data\<close> and no other,
  so \<^verbatim>\<open>item.title\<close> and \<^verbatim>\<open>item.index\<close> are \<^verbatim>\<open>undefined\<close>.
\<close>

definition pressCard :: "bool \<Rightarrow> groupCard \<Rightarrow> tapResult" where
  "pressCard dynamicMenu item =
     focusOrderNavigate dynamicMenu (GroupIx (cardKey item)) False None"

subsection \<open>The lunch schedule of a user\<close>

text \<open>
  \<^verbatim>\<open>getStateConstants\<close> stores the \<^verbatim>\<open>lunchSchedule\<close> document as it is: the branch
  \<^verbatim>\<open>if (constants.lunchSchedule.dependent) { }\<close> is empty.
\<close>

definition storedLunchSchedule :: "'s LunchSchedule \<Rightarrow> 's LunchSchedule" where
  "storedLunchSchedule lunchSchedule = (if dependent lunchSchedule then lunchSchedule else lunchSchedule)"

datatype error = UnresolvedUserSchedule

text \<open>
  Modelled from the spec: the dependent form of the lunch schedule configuration,
  a mapping from the values of one user attribute to sub-configurations. The
  code that reads this form (\<^verbatim>\<open>constants/Schedule.js\<close>) is not available.
\<close>

record 's DependentLunchSchedule = "'s LunchSchedule" +
  attribute :: string
  subConfigs :: "(string \<times> 's) list"

text \<open>
  Modelled from the spec: \<^verbatim>\<open>getUserLunchSchedule\<close> of \<^verbatim>\<open>constants/Schedule.js\<close>,
  which \<^verbatim>\<open>mapStateToProps\<close> calls and whose source is not available. The
  specification calls it \<^verbatim>\<open>resolveForUser\<close>: a configuration that is not
  dependent is returned as it is (in the non-dependent form); for a dependent one
  the user's value of the attribute selects the sub-configuration, and the
  resolution fails with \<^verbatim>\<open>UnresolvedUserSchedule\<close> when no sub-configuration
  matches.
\<close>

definition resolveForUser ::
  "'s DependentLunchSchedule \<Rightarrow> (string \<times> string) list \<Rightarrow> error + 's LunchSchedule" where
  "resolveForUser lunchConfig user =
     (if \<not> dependent lunchConfig
      then Inr \<lparr>dependent = False, schedule = schedule lunchConfig\<rparr>
      else
        (case map_of user (attribute lunchConfig) of
           None \<Rightarrow> Inl UnresolvedUserSchedule
         | Some v \<Rightarrow>
             (case map_of (subConfigs lunchConfig) v of
                None \<Rightarrow> Inl UnresolvedUserSchedule
              | Some sub \<Rightarrow> Inr \<lparr>dependent = False, schedule = sub\<rparr>)))"

subsection \<open>A concrete organisation\<close>

text \<open>
  An instance of the helpers, for evaluating the functions above on explicit
  inputs. Four days can be parsed, lunch is served on the first three, groups
  are pairs of consecutive lunch days of the requested window, the available
  groups are those of the window that hold no order, the cutoff date of the current
  cycle is the second day, and a group is before its cutoff when its first day
  comes after the second day.
\<close>

definition exCalendar :: "(string \<times> int) list" where
  "exCalendar =
     [(''2021-03-01'', 1), (''2021-03-02'', 2), (''2021-03-03'', 3), (''2021-03-04'', 4)]"

definition exLunchDays :: "string list" where
  "exLunchDays = [''2021-03-01'', ''2021-03-02'', ''2021-03-03'']"

definition exMoment :: "jsval \<Rightarrow> moment" where
  "exMoment v = (case v of JStr s \<Rightarrow> map_of exCalendar s | _ \<Rightarrow> None)"

definition exText :: "jsval \<Rightarrow> string" where
  "exText v = (case v of JStr s \<Rightarrow> s | _ \<Rightarrow> ''Invalid date'')"

definition exMaxISO :: "jsval list \<Rightarrow> string" where
  "exMaxISO vs =
     (case List.map_filter exMoment vs of
        [] \<Rightarrow> ''Invalid date''
      | n # ns \<Rightarrow>
          (case map_of (map (\<lambda>(s, m). (m, s)) exCalendar) (fold max ns n) of
             None \<Rightarrow> ''Invalid date''
           | Some s \<Rightarrow> s))"

definition exWindow :: "string \<Rightarrow> string \<Rightarrow> string list" where
  "exWindow start end =
     filter (\<lambda>d. case map_of exCalendar start of
                    None \<Rightarrow> False
                  | Some a \<Rightarrow>
                      (case map_of exCalendar d of
                         None \<Rightarrow> False
                       | Some x \<Rightarrow>
                           (case map_of exCalendar end of
                              None \<Rightarrow> False
                            | Some b \<Rightarrow> a \<le> x \<and> x \<le> b)))
            exLunchDays"

fun exPairs :: "string list \<Rightarrow> scheduleGroup list" where
  "exPairs [] = []"
| "exPairs [d] = [[d]]"
| "exPairs (d # d' # ds) = [d, d'] # exPairs ds"

definition exHasOrder :: "(string \<times> obj) list \<Rightarrow> scheduleGroup \<Rightarrow> bool" where
  "exHasOrder collectionData g =
     list_ex (\<lambda>(k, r). arrIncludes g (field r ''date'')) collectionData"

definition exOpen :: "scheduleGroup \<Rightarrow> bool" where
  "exOpen g =
     (case g of
        [] \<Rightarrow> False
      | d # _ \<Rightarrow> (case map_of exCalendar d of None \<Rightarrow> False | Some x \<Rightarrow> 2 < x))"

definition exSchedule :: "(unit, unit) Schedule" where
  "exSchedule =
     \<lparr>today = ''2021-03-01'',
      maxISO = exMaxISO,
      momentOf = exMoment,
      parseISO = exMoment,
      toReadable = exText,
      toSimple = exText,
      getCutoffDate = (\<lambda>orderSchedule. Some 2),
      getValidOrderDates =
        (\<lambda>collectionData focused orderSchedule lunchSchedule start end.
           filter (\<lambda>g. \<not> exHasOrder collectionData g) (exPairs (exWindow start end))),
      getLunchSchedule = (\<lambda>orderSchedule lunchSchedule start end. exWindow start end),
      getScheduleGroups = (\<lambda>dates sched. exPairs dates),
      isBeforeCutoff = (\<lambda>g orderSchedule lunchSchedule. exOpen g),
      engineSort = jsSort\<rparr>"

text \<open>The same organisation when the cutoff of every group has passed.\<close>

definition exScheduleClosed :: "(unit, unit) Schedule" where
  "exScheduleClosed = exSchedule\<lparr>isBeforeCutoff := (\<lambda>g orderSchedule lunchSchedule. False)\<rparr>"

definition exCustom :: "unit OrderSchedule" where
  "exCustom = \<lparr>scheduleType = Some CUSTOM, orderRules = ()\<rparr>"

definition exDaily :: "unit OrderSchedule" where
  "exDaily = \<lparr>scheduleType = Some DAILY, orderRules = ()\<rparr>"

definition exLunch :: "unit LunchSchedule" where
  "exLunch = \<lparr>dependent = False, schedule = ()\<rparr>"

definition exOrder :: "string \<Rightarrow> string \<Rightarrow> string \<Rightarrow> doc" where
  "exOrder ident day user =
     \<lparr>doc_id = ident,
      doc_data = [(''title'', JStr ''Lunch''), (''date'', JStr day), (''uid'', JStr user)]\<rparr>"

definition exSnapshot :: "doc list" where
  "exSnapshot =
     [exOrder ''z'' ''2021-03-01'' ''u1'',
      exOrder ''x'' ''2021-03-02'' ''u1'',
      exOrder ''y'' ''2021-03-03'' ''u1'']"

definition exSnapshotLate :: "doc list" where
  "exSnapshotLate =
     [exOrder ''y'' ''2021-03-03'' ''u1'',
      exOrder ''w'' ''2021-03-04'' ''u1'']"

definition exSnapshotClosed :: "doc list" where
  "exSnapshotClosed =
     [exOrder ''x'' ''2021-03-02'' ''u1'',
      exOrder ''w'' ''2021-03-04'' ''u1'']"

definition exDependentLunch :: "unit DependentLunchSchedule" where
  "exDependentLunch =
     \<lparr>dependent = True, schedule = (), attribute = ''site'',
      subConfigs = [(''siteA'', ()), (''siteB'', ())]\<rparr>"

section \<open>Auxiliary facts\<close>

lemma storedLunchSchedule_unchanged: "storedLunchSchedule lunchSchedule = lunchSchedule"
  by (simp add: storedLunchSchedule_def)

lemma field_update: "field (AList.update k v ob) k' = (if k' = k then v else field ob k')"
  by (simp add: field_def update_conv')

lemma field_delete: "field (AList.delete k ob) k' = (if k' = k then JUndefined else field ob k')"
  by (simp add: field_def delete_conv')

lemma field_docRecord:
  "k \<noteq> ''uid'' \<Longrightarrow> k \<noteq> ''key'' \<Longrightarrow> field (docRecord d) k = field (doc_data d) k"
  by (simp add: docRecord_def field_update field_delete)

lemma set_update_subset: "set (AList.update k v al) \<subseteq> insert (k, v) (set al)"
  by (induction al) auto

lemma uid_notin_docRecord: "''uid'' \<notin> fst ` set (docRecord d)"
  by (simp add: docRecord_def delete_notin_dom)

lemma survives_docRecord:
  "survives H c (docRecord d) = survives H c (doc_data d)"
  by (simp add: survives_def field_docRecord)

lemma collectDoc_alt:
  "collectDoc H c d acc =
     (if survives H c (doc_data d)
      then AList.update (doc_id d) (docRecord d) acc else acc)"
  by (simp add: collectDoc_def Let_def survives_docRecord)

lemma fold_collect_mem:
  "(k, r) \<in> set (fold (collectDoc H c) qs acc) \<Longrightarrow>
     (k, r) \<in> set acc \<or>
     (\<exists>d\<in>set qs. k = doc_id d \<and> r = docRecord d
        \<and> survives H c (doc_data d))"
proof (induction qs arbitrary: acc)
  case Nil
  then show ?case by simp
next
  case (Cons d qs)
  from Cons.prems have "(k, r) \<in> set (fold (collectDoc H c) qs (collectDoc H c d acc))"
    by simp
  from Cons.IH[OF this] show ?case
    using set_update_subset[of "doc_id d" "docRecord d" acc]
    by (auto simp: collectDoc_alt split: if_splits)
qed

lemma fold_collect_keys:
  "fst ` set (fold (collectDoc H c) qs acc) =
     fst ` set acc \<union> doc_id ` {d \<in> set qs. survives H c (doc_data d)}"
  by (induction qs arbitrary: acc) (auto simp: collectDoc_alt dom_update)

lemma fold_collect_distinct:
  "distinct (map fst acc) \<Longrightarrow> distinct (map fst (fold (collectDoc H c) qs acc))"
  by (induction qs arbitrary: acc) (auto simp: collectDoc_alt distinct_update)

lemma update_fresh: "k \<notin> fst ` set al \<Longrightarrow> AList.update k v al = al @ [(k, v)]"
  by (induction al) auto

lemma fold_collect_distinct_ids:
  "distinct (map doc_id qs) \<Longrightarrow> doc_id ` set qs \<inter> fst ` set acc = {} \<Longrightarrow>
   fold (collectDoc H c) qs acc =
     acc @ map (\<lambda>d. (doc_id d, docRecord d))
             (filter (\<lambda>d. survives H c (doc_data d)) qs)"
proof (induction qs arbitrary: acc)
  case Nil
  then show ?case by simp
next
  case (Cons d qs)
  show ?case
  proof (cases "survives H c (doc_data d)")
    case True
    have fresh: "doc_id d \<notin> fst ` set acc" using Cons.prems(2) by auto
    have step: "collectDoc H c d acc = acc @ [(doc_id d, docRecord d)]"
      using True fresh by (simp add: collectDoc_alt update_fresh)
    have "doc_id ` set qs \<inter> fst ` set (acc @ [(doc_id d, docRecord d)]) = {}"
      using Cons.prems by auto
    with Cons.IH[of "acc @ [(doc_id d, docRecord d)]"] Cons.prems(1) True step
    show ?thesis by simp
  next
    case False
    have "doc_id ` set qs \<inter> fst ` set acc = {}" using Cons.prems(2) by auto
    with Cons.IH[of acc] Cons.prems(1) False show ?thesis
      by (simp add: collectDoc_alt)
  qed
qed


lemma walk_fst:
  "fst (walkGroups cd av i gs idx ords) = idx + int (length (filter (isAvailable av) gs))"
  by (induction gs arbitrary: i idx ords) (simp_all add: Let_def)

lemma walk_snd_append:
  "\<forall>j\<ge>i. GroupIx j \<notin> fst ` set ords \<Longrightarrow>
   snd (walkGroups cd av i gs idx ords) = ords @ snd (walkGroups cd av i gs idx [])"
proof (induction gs arbitrary: i idx ords)
  case Nil
  then show ?case by simp
next
  case (Cons g gs)
  have fresh_suc: "\<forall>j\<ge>Suc i. GroupIx j \<notin> fst ` set ords"
    using Cons.prems by auto
  show ?case
  proof (cases "isAvailable av g")
    case True
    then show ?thesis using Cons.IH[OF fresh_suc] by simp
  next
    case False
    show ?thesis
    proof (cases "relevantKeys cd g = []")
      case True
      then show ?thesis using False Cons.IH[OF fresh_suc] by simp
    next
      case nonempty: False
      let ?e = "(GroupIx i, Grouped (groupEntry cd g i idx (relevantKeys cd g)))"
      have upd: "AList.update (GroupIx i) (snd ?e) ords = ords @ [?e]"
        using Cons.prems by (simp add: update_fresh)
      have f1: "\<forall>j\<ge>Suc i. GroupIx j \<notin> fst ` set (ords @ [?e])"
        using fresh_suc by auto
      have f2: "\<forall>j\<ge>Suc i. GroupIx j \<notin> fst ` set [?e]"
        by auto
      have "snd (walkGroups cd av i (g # gs) idx ords)
              = snd (walkGroups cd av (Suc i) gs idx (ords @ [?e]))"
        using False nonempty upd by (simp add: Let_def)
      also have "\<dots> = (ords @ [?e]) @ snd (walkGroups cd av (Suc i) gs idx [])"
        by (rule Cons.IH[OF f1])
      also have "\<dots> = ords @ snd (walkGroups cd av (Suc i) gs idx [?e])"
        using Cons.IH[OF f2] by simp
      also have "\<dots> = ords @ snd (walkGroups cd av i (g # gs) idx [])"
        using False nonempty by (simp add: Let_def)
      finally show ?thesis .
    qed
  qed
qed

lemma walk_Cons:
  "snd (walkGroups cd av i (g # gs) idx []) =
     (if isAvailable av g then snd (walkGroups cd av (Suc i) gs (idx + 1) [])
      else if relevantKeys cd g \<noteq> []
           then (GroupIx i, Grouped (groupEntry cd g i idx (relevantKeys cd g)))
                  # snd (walkGroups cd av (Suc i) gs idx [])
           else snd (walkGroups cd av (Suc i) gs idx []))"
proof -
  let ?e = "(GroupIx i, Grouped (groupEntry cd g i idx (relevantKeys cd g)))"
  have "\<forall>j\<ge>Suc i. GroupIx j \<notin> fst ` set [?e]" by auto
  from walk_snd_append[OF this, of cd av gs idx] show ?thesis
    by (simp add: Let_def)
qed

lemma walk_lookup:
  "map_of (snd (walkGroups cd av i gs idx [])) (GroupIx j) =
     (if i \<le> j \<and> j < i + length gs \<and> \<not> isAvailable av (gs ! (j - i))
         \<and> relevantKeys cd (gs ! (j - i)) \<noteq> []
      then Some (Grouped (groupEntry cd (gs ! (j - i)) j
                   (idx + int (length (filter (isAvailable av) (take (j - i) gs))))
                   (relevantKeys cd (gs ! (j - i)))))
      else None)"
proof (induction gs arbitrary: i idx)
  case Nil
  then show ?case by simp
next
  case (Cons g gs)
  show ?case
  proof (cases "j = i")
    case True
    then show ?thesis
      using Cons.IH[of "Suc i"] by (simp add: walk_Cons del: walkGroups.simps(2))
  next
    case False
    show ?thesis
    proof (cases "j < i")
      case True
      then show ?thesis using Cons.IH[of "Suc i"] by (simp add: walk_Cons del: walkGroups.simps(2))
    next
      case ge: False
      with False have gt: "i < j" by simp
      then have d: "j - i = Suc (j - Suc i)" by simp
      show ?thesis
        using gt Cons.IH[of "Suc i"] by (simp add: walk_Cons d add.assoc del: walkGroups.simps(2))
    qed
  qed
qed

lemma walk_lookup_DocId:
  "map_of (snd (walkGroups cd av i gs idx [])) (DocId k) = None"
  by (induction gs arbitrary: i idx) (simp_all add: walk_Cons del: walkGroups.simps(2))


lemma fold_addDay_fields:
  "date (fold (addDay cd) rks e) = date e \<and> key (fold (addDay cd) rks e) = key e
   \<and> index (fold (addDay cd) rks e) = index e \<and> keys (fold (addDay cd) rks e) = keys e"
  by (induction rks arbitrary: e) (simp_all add: addDay_def split: option.splits)

lemma groupEntry_fields [simp]:
  "date (groupEntry cd g i idx rks) = g"
  "key (groupEntry cd g i idx rks) = i"
  "index (groupEntry cd g i idx rks) = idx"
  "keys (groupEntry cd g i idx rks) = rks"
  by (simp_all add: groupEntry_def fold_addDay_fields)

lemma fold_addDay_days:
  "(d, r) \<in> set (days (fold (addDay cd) rks e)) \<Longrightarrow>
     (d, r) \<in> set (days e) \<or> (\<exists>k\<in>set rks. map_of cd k = Some r)"
proof (induction rks arbitrary: e)
  case Nil
  then show ?case by simp
next
  case (Cons k rks)
  from Cons.prems have "(d, r) \<in> set (days (fold (addDay cd) rks (addDay cd k e)))"
    by simp
  from Cons.IH[OF this] show ?case
  proof
    assume "(d, r) \<in> set (days (addDay cd k e))"
    then show ?thesis
      using set_update_subset[of _ _ "days e"]
      by (auto simp: addDay_def split: option.splits)
  next
    assume "\<exists>k\<in>set rks. map_of cd k = Some r"
    then show ?thesis by auto
  qed
qed

lemma groupEntry_days:
  "(d, r) \<in> set (days (groupEntry cd g i idx rks)) \<Longrightarrow> \<exists>k\<in>set rks. map_of cd k = Some r"
  using fold_addDay_days[of d r cd rks "\<lparr>date = g, key = i, index = idx, keys = rks, days = []\<rparr>"]
  by (simp add: groupEntry_def)

lemma relevantKeys_set:
  "set (relevantKeys cd g) =
     {k. \<exists>r. map_of cd k = Some r \<and> arrIncludes g (field r ''date'')}"
proof -
  have "\<And>k r. map_of cd k = Some r \<Longrightarrow> k \<in> fst ` set cd"
    by (metis map_of_eq_None_iff option.distinct(1))
  then show ?thesis
    by (auto simp: relevantKeys_def split: option.splits)
qed

lemma relevantKeys_distinct:
  "distinct (map fst cd) \<Longrightarrow> distinct (relevantKeys cd g)"
  by (simp add: relevantKeys_def)

lemma arrIncludes_iff: "arrIncludes g v = (\<exists>s. v = JStr s \<and> s \<in> set g)"
  by (cases v) (simp_all add: arrIncludes_def)

lemma collectionData_distinct: "distinct (map fst (collectionDataOf H qs os))"
  by (simp add: collectionDataOf_def fold_collect_distinct)

lemma collectionData_lookup:
  "map_of (collectionDataOf H qs os) k = Some r \<Longrightarrow>
     \<exists>d\<in>set qs. k = doc_id d \<and> r = docRecord d \<and> survives H (getCutoffDate H os) (doc_data d)"
  using fold_collect_mem[of k r H "getCutoffDate H os" qs "[]"]
  by (auto simp: collectionDataOf_def dest: map_of_SomeD)

lemma updateOrders_records:
  "\<not> groupsOrders H qs os \<Longrightarrow>
   updateOrders H qs os ls = map (\<lambda>(k, r). (DocId k, Single r)) (collectionDataOf H qs os)"
  by (simp add: updateOrders_def)

lemma updateOrders_groups:
  "groupsOrders H qs os \<Longrightarrow>
   updateOrders H qs os ls =
     snd (walkGroups (collectionDataOf H qs os) (availableScheduleGroups H qs os ls) 0
            (allScheduleGroups H qs os ls)
            (startIndex H (availableScheduleGroups H qs os ls) os ls) [])"
  by (simp add: updateOrders_def Let_def)

lemma focusOrderNavigate_alert_iff:
  "(focusOrderNavigate dynamicMenu ident hasTitle idx
      = Alert ''Cannot edit order'' ''It is too late to edit this order.'')
     = (\<exists>n. idx = Some n \<and> n \<noteq> 0 \<and> n < 0)"
  by (cases idx) (auto simp: focusOrderNavigate_def)

lemma pressCard_proceeds:
  "pressCard dynamicMenu item = FocusAndNavigate (GroupIx (cardKey item)) ''Custom Order''"
  by (simp add: pressCard_def focusOrderNavigate_def)

lemma walk_keys_range:
  "k \<in> fst ` set (snd (walkGroups cd av i gs idx [])) \<Longrightarrow>
     \<exists>j. k = GroupIx j \<and> i \<le> j \<and> j < i + length gs"
proof -
  assume "k \<in> fst ` set (snd (walkGroups cd av i gs idx []))"
  then have some: "map_of (snd (walkGroups cd av i gs idx [])) k \<noteq> None"
    by (simp add: map_of_eq_None_iff)
  show ?thesis
  proof (cases k)
    case (DocId x)
    with some show ?thesis by (simp add: walk_lookup_DocId)
  next
    case (GroupIx j)
    with some show ?thesis by (auto simp: walk_lookup split: if_splits)
  qed
qed

lemma walk_distinct: "distinct (map fst (snd (walkGroups cd av i gs idx [])))"
proof (induction gs arbitrary: i idx)
  case Nil
  then show ?case by simp
next
  case (Cons g gs)
  have "GroupIx i \<notin> fst ` set (snd (walkGroups cd av (Suc i) gs idx []))"
    using walk_keys_range[of "GroupIx i" cd av "Suc i" gs idx] by auto
  then show ?case
    using Cons.IH[of "Suc i"] by (simp add: walk_Cons del: walkGroups.simps(2))
qed

lemma walk_mem_iff:
  "(k, v) \<in> set (snd (walkGroups cd av i gs idx [])) \<longleftrightarrow>
     map_of (snd (walkGroups cd av i gs idx [])) k = Some v"
  by (simp add: walk_distinct)

lemma walk_groupValues_Cons:
  "groupValues (snd (walkGroups cd av i (g # gs) idx [])) =
     (if isAvailable av g then groupValues (snd (walkGroups cd av (Suc i) gs (idx + 1) []))
      else if relevantKeys cd g \<noteq> []
           then groupEntry cd g i idx (relevantKeys cd g)
                  # groupValues (snd (walkGroups cd av (Suc i) gs idx []))
           else groupValues (snd (walkGroups cd av (Suc i) gs idx [])))"
  by (simp add: walk_Cons groupValues_def List.map_filter_simps del: walkGroups.simps(2))

lemma walk_all_grouped:
  "map (\<lambda>e. (GroupIx (key e), Grouped e)) (groupValues (snd (walkGroups cd av i gs idx [])))
     = snd (walkGroups cd av i gs idx [])"
proof (induction gs arbitrary: i idx)
  case Nil
  then show ?case by (simp add: groupValues_def List.map_filter_simps)
next
  case (Cons g gs)
  show ?case
    apply (subst walk_groupValues_Cons)
    apply (subst walk_Cons)
    apply (simp add: Cons.IH del: walkGroups.simps(2))
    done
qed

lemma orderIds_Cons_group:
  "orderIds ((GroupIx i, Grouped e) # ords) = keys e @ orderIds ords"
  by (simp add: orderIds_def)

lemma walk_orderIds:
  "orderIds (snd (walkGroups cd av i gs idx []))
     = concat (map (\<lambda>g. if isAvailable av g then [] else relevantKeys cd g) gs)"
proof (induction gs arbitrary: i idx)
  case Nil
  then show ?case by (simp add: orderIds_def)
next
  case (Cons g gs)
  show ?case
    apply (subst walk_Cons)
    apply (simp add: Cons.IH orderIds_Cons_group del: walkGroups.simps(2))
    done
qed

lemma walk_orderIds_groupValues:
  "orderIds (snd (walkGroups cd av i gs idx []))
     = concat (map keys (groupValues (snd (walkGroups cd av i gs idx []))))"
proof (induction gs arbitrary: i idx)
  case Nil
  then show ?case by (simp add: orderIds_def groupValues_def List.map_filter_simps)
next
  case (Cons g gs)
  show ?case
    apply (subst walk_groupValues_Cons)
    apply (subst walk_Cons)
    apply (simp add: Cons.IH orderIds_Cons_group del: walkGroups.simps(2))
    done
qed

lemma relevantKeys_disjoint:
  assumes "set g \<inter> set g' = {}"
  shows "set (relevantKeys cd g) \<inter> set (relevantKeys cd g') = {}"
  using assms by (auto simp: relevantKeys_set arrIncludes_iff)

lemma distinct_claimed_ids:
  assumes "distinct (map fst cd)" and "distinct (concat gs)"
  shows "distinct (concat (map (\<lambda>g. if isAvailable av g then [] else relevantKeys cd g) gs))"
  using assms(2)
proof (induction gs)
  case Nil
  then show ?case by simp
next
  case (Cons g gs)
  have disj: "\<And>g'. g' \<in> set gs \<Longrightarrow> set (relevantKeys cd g) \<inter> set (relevantKeys cd g') = {}"
  proof -
    fix g' assume "g' \<in> set gs"
    with Cons.prems have "set g \<inter> set g' = {}" by auto
    then show "set (relevantKeys cd g) \<inter> set (relevantKeys cd g') = {}"
      by (rule relevantKeys_disjoint)
  qed
  have "distinct (concat gs)" using Cons.prems by simp
  from Cons.IH[OF this] show ?case
    using disj assms(1) by (auto simp: relevantKeys_distinct)
qed

lemma jsSort_ordered:
  "sorted_wrt (\<lambda>a b. \<not> positive (cmp a b)) xs \<Longrightarrow> jsSort cmp xs = xs"
proof (induction xs)
  case Nil
  then show ?case by (simp add: jsSort_def)
next
  case (Cons x xs)
  then have "jsSort cmp xs = xs" by simp
  then have "jsSort cmp (x # xs) = insertBy cmp x xs" by (simp add: jsSort_def)
  also have "\<dots> = x # xs" using Cons.prems by (cases xs) simp_all
  finally show ?case .
qed

lemma walk_groupValues_props:
  "e \<in> set (groupValues (snd (walkGroups cd av i gs idx []))) \<Longrightarrow>
     i \<le> key e \<and> key e < i + length gs \<and> date e = gs ! (key e - i)"
proof (induction gs arbitrary: i idx)
  case Nil
  then show ?case by (simp add: groupValues_def List.map_filter_simps)
next
  case (Cons g gs)
  from Cons.prems have
    "e = groupEntry cd g i idx (relevantKeys cd g)
     \<or> (\<exists>idx'. e \<in> set (groupValues (snd (walkGroups cd av (Suc i) gs idx' []))))"
    by (auto simp: walk_groupValues_Cons split: if_splits simp del: walkGroups.simps(2))
  then show ?case
  proof
    assume "e = groupEntry cd g i idx (relevantKeys cd g)"
    then show ?thesis by simp
  next
    assume "\<exists>idx'. e \<in> set (groupValues (snd (walkGroups cd av (Suc i) gs idx' [])))"
    then obtain idx' where "e \<in> set (groupValues (snd (walkGroups cd av (Suc i) gs idx' [])))"
      by blast
    from Cons.IH[OF this] show ?thesis by (auto simp: nth_Cons')
  qed
qed

lemma walk_keys_increasing:
  "sorted_wrt (<) (map key (groupValues (snd (walkGroups cd av i gs idx []))))"
proof (induction gs arbitrary: i idx)
  case Nil
  then show ?case by (simp add: groupValues_def List.map_filter_simps)
next
  case (Cons g gs)
  have later: "\<And>e idx'. e \<in> set (groupValues (snd (walkGroups cd av (Suc i) gs idx' [])))
      \<Longrightarrow> i < key e"
    using walk_groupValues_props[of _ cd av "Suc i" gs] by fastforce
  show ?case
    apply (subst walk_groupValues_Cons)
    apply (simp add: Cons.IH later del: walkGroups.simps(2))
    done
qed

lemma walk_groupValues_ordered:
  "sorted_wrt P gs \<Longrightarrow>
   sorted_wrt (\<lambda>a b. P (date a) (date b)) (groupValues (snd (walkGroups cd av i gs idx [])))"
proof (induction gs arbitrary: i idx)
  case Nil
  then show ?case by (simp add: groupValues_def List.map_filter_simps)
next
  case (Cons g gs)
  have later: "\<And>e idx'. e \<in> set (groupValues (snd (walkGroups cd av (Suc i) gs idx' [])))
      \<Longrightarrow> P g (date e)"
  proof -
    fix e idx' assume e: "e \<in> set (groupValues (snd (walkGroups cd av (Suc i) gs idx' [])))"
    from walk_groupValues_props[OF e] have "date e \<in> set gs"
      by (metis add_Suc less_diff_conv2 nth_mem add.commute)
    with Cons.prems show "P g (date e)" by simp
  qed
  have "sorted_wrt P gs" using Cons.prems by simp
  note ih = Cons.IH[OF this]
  show ?case
    apply (subst walk_groupValues_Cons)
    apply (simp add: ih later del: walkGroups.simps(2))
    done
qed

lemma orderIds_records:
  "orderIds (map (\<lambda>(k, r). (DocId k, Single r)) cd) = map fst cd"
  by (induction cd) (auto simp: orderIds_def)

lemma orderRecords_records:
  "orderRecords (map (\<lambda>(k, r). (DocId k, Single r)) cd) = map snd cd"
  by (induction cd) (auto simp: orderRecords_def)

lemma orderRecords_Cons_group:
  "orderRecords ((GroupIx i, Grouped e) # ords) = map snd (days e) @ orderRecords ords"
  by (simp add: orderRecords_def)

lemma walk_orderRecords:
  "r \<in> set (orderRecords (snd (walkGroups cd av i gs idx []))) \<Longrightarrow>
     \<exists>k. map_of cd k = Some r"
proof (induction gs arbitrary: i idx)
  case Nil
  then show ?case by (simp add: orderRecords_def)
next
  case (Cons g gs)
  from Cons.prems have
    "r \<in> snd ` set (days (groupEntry cd g i idx (relevantKeys cd g)))
     \<or> (\<exists>idx'. r \<in> set (orderRecords (snd (walkGroups cd av (Suc i) gs idx' []))))"
    by (auto simp: walk_Cons orderRecords_Cons_group split: if_splits
        simp del: walkGroups.simps(2))
  then show ?case
  proof
    assume "r \<in> snd ` set (days (groupEntry cd g i idx (relevantKeys cd g)))"
    then obtain d where "(d, r) \<in> set (days (groupEntry cd g i idx (relevantKeys cd g)))"
      by auto
    from groupEntry_days[OF this] show ?thesis by blast
  next
    assume "\<exists>idx'. r \<in> set (orderRecords (snd (walkGroups cd av (Suc i) gs idx' [])))"
    then show ?thesis using Cons.IH by blast
  qed
qed

lemma orderRecords_from_collection:
  "r \<in> set (orderRecords (updateOrders H qs os ls)) \<Longrightarrow>
     \<exists>k. map_of (collectionDataOf H qs os) k = Some r"
proof (cases "groupsOrders H qs os")
  case True
  assume "r \<in> set (orderRecords (updateOrders H qs os ls))"
  with True show ?thesis
    by (auto simp: updateOrders_groups dest: walk_orderRecords)
next
  case False
  assume "r \<in> set (orderRecords (updateOrders H qs os ls))"
  with False have "r \<in> snd ` set (collectionDataOf H qs os)"
    by (simp add: updateOrders_records orderRecords_records)
  then obtain k where "(k, r) \<in> set (collectionDataOf H qs os)" by auto
  then show ?thesis using collectionData_distinct[of H qs os] by auto
qed

lemma orderIds_from_collection:
  "ident \<in> set (orderIds (updateOrders H qs os ls)) \<Longrightarrow>
     ident \<in> fst ` set (collectionDataOf H qs os)"
proof (cases "groupsOrders H qs os")
  case True
  assume "ident \<in> set (orderIds (updateOrders H qs os ls))"
  with True obtain g where "ident \<in> set (relevantKeys (collectionDataOf H qs os) g)"
    by (auto simp: updateOrders_groups walk_orderIds split: if_splits)
  then show ?thesis by (auto simp: relevantKeys_def)
next
  case False
  assume "ident \<in> set (orderIds (updateOrders H qs os ls))"
  with False show ?thesis by (simp add: updateOrders_records orderIds_records)
qed

lemma collectionData_closed_form:
  "distinct (map doc_id qs) \<Longrightarrow>
   collectionDataOf H qs os
     = map (\<lambda>d. (doc_id d, docRecord d))
         (filter (\<lambda>d. survives H (getCutoffDate H os) (doc_data d)) qs)"
  using fold_collect_distinct_ids[of qs "[]" H "getCutoffDate H os"]
  by (simp add: collectionDataOf_def)

lemma collectionData_survivor:
  assumes "distinct (map doc_id qs)" and "d \<in> set qs"
    and "survives H (getCutoffDate H os) (doc_data d)"
  shows "map_of (collectionDataOf H qs os) (doc_id d) = Some (docRecord d)"
proof -
  have "(doc_id d, docRecord d) \<in> set (collectionDataOf H qs os)"
    using assms by (auto simp: collectionData_closed_form)
  then show ?thesis using collectionData_distinct[of H qs os] by simp
qed

lemma collectionData_keys:
  "fst ` set (collectionDataOf H qs os)
     = doc_id ` {d \<in> set qs. survives H (getCutoffDate H os) (doc_data d)}"
  using fold_collect_keys[of H "getCutoffDate H os" qs "[]"]
  by (simp add: collectionDataOf_def)

lemma key_docRecord: "field (docRecord d) ''key'' = JStr (doc_id d)"
  by (simp add: docRecord_def field_update field_delete)

lemma docRecord_same_uid_free:
  "doc_id d = doc_id d' \<Longrightarrow>
   AList.delete ''uid'' (doc_data d) = AList.delete ''uid'' (doc_data d') \<Longrightarrow>
   docRecord d = docRecord d'"
  by (simp add: docRecord_def delete_update)

lemma date_uid_free:
  "AList.delete ''uid'' (doc_data d) = AList.delete ''uid'' (doc_data d') \<Longrightarrow>
   field (doc_data d) ''date'' = field (doc_data d') ''date''"
proof -
  assume eq: "AList.delete ''uid'' (doc_data d) = AList.delete ''uid'' (doc_data d')"
  have "field (doc_data d) ''date'' = field (AList.delete ''uid'' (doc_data d)) ''date''"
    by (simp add: field_delete)
  also have "\<dots> = field (AList.delete ''uid'' (doc_data d')) ''date''"
    by (simp only: eq)
  also have "\<dots> = field (doc_data d') ''date''"
    by (simp add: field_delete)
  finally show ?thesis .
qed

section \<open>The claims\<close>

text \<open>
  C10. The check in \<^verbatim>\<open>focusOrderNavigate\<close> is the one the claim describes, but
  the index of an order does not reach it. \<^verbatim>\<open>updateOrders\<close> stores the index in
  the entry of a claimed group; \<^verbatim>\<open>getOrdersArr\<close> builds the card of the entry
  without it (the index goes to \<^verbatim>\<open>orderGroups\<close>, hence into \<^verbatim>\<open>data\<close>); the
  tap hands over \<^verbatim>\<open>item.index\<close>, which is \<^verbatim>\<open>undefined\<close>. Below, the claimed
  group of the first two days precedes the only available group, whose cutoff has
  passed: the entry has index \<open>-1\<close>, the tap on its card goes on to the edit
  screen, and the same call with the index of the entry would have alerted.
\<close>

theorem late_group_order_tap_proceeds:
  "map_of (updateOrders exScheduleClosed exSnapshotClosed exCustom exLunch) (GroupIx 0)
     = Some (Grouped \<lparr>date = [''2021-03-01'', ''2021-03-02''], key = 0, index = - 1,
               keys = [''x''],
               days = [(''2021-03-02'',
                        [(''title'', JStr ''Lunch''), (''date'', JStr ''2021-03-02''),
                         (''key'', JStr ''x'')])]\<rparr>)
   \<and> getOrdersArr exScheduleClosed
         (updateOrders exScheduleClosed exSnapshotClosed exCustom exLunch) True
       = [GroupItem \<lparr>cardDate = ''2021-03-01 to 2021-03-02'', cardKey = 0,
                      cardKeys = [''x''],
                      cardData = [[(''date'', JStr ''Invalid date'')],
                                  [(''title'', JStr ''Lunch''), (''date'', JStr ''2021-03-02''),
                                   (''key'', JStr ''x'')]]\<rparr>]
   \<and> pressCard False
         \<lparr>cardDate = ''2021-03-01 to 2021-03-02'', cardKey = 0, cardKeys = [''x''],
          cardData = [[(''date'', JStr ''Invalid date'')],
                      [(''title'', JStr ''Lunch''), (''date'', JStr ''2021-03-02''),
                       (''key'', JStr ''x'')]]\<rparr>
       = FocusAndNavigate (GroupIx 0) ''Custom Order''
   \<and> focusOrderNavigate False (GroupIx 0) False (Some (- 1))
       = Alert ''Cannot edit order'' ''It is too late to edit this order.''"
  by code_simp

text \<open>
  C9. In a CUSTOM reconciliation (CUSTOM schedule, at least one surviving record)
  every entry of the orders state stands for a claimed group: it is stored under
  the position of a group of the walked sequence, it carries that group, and its
  \<^verbatim>\<open>keys\<close> are the surviving records whose date is in the group, of which there
  is at least one. A group with no surviving record of its dates has no entry.
\<close>

theorem only_claimed_groups_have_entries:
  fixes H :: "('r, 's) Schedule" and qs os ls
  defines "cd \<equiv> collectionDataOf H qs os"
    and "allGroups \<equiv> allScheduleGroups H qs os ls"
  shows
    "groupsOrders H qs os \<longrightarrow>
       ((k, v) \<in> set (updateOrders H qs os ls) \<longrightarrow>
          (\<exists>i e. k = GroupIx i \<and> v = Grouped e \<and> i < length allGroups
             \<and> date e = allGroups ! i \<and> key e = i \<and> keys e \<noteq> []
             \<and> set (keys e)
                 = {ident. \<exists>r. map_of cd ident = Some r
                      \<and> arrIncludes (allGroups ! i) (field r ''date'')}))
       \<and> (i < length allGroups
            \<and> {ident. \<exists>r. map_of cd ident = Some r
                  \<and> arrIncludes (allGroups ! i) (field r ''date'')} = {}
          \<longrightarrow> GroupIx i \<notin> fst ` set (updateOrders H qs os ls))"
proof (intro impI conjI)
  assume g: "groupsOrders H qs os"
  let ?av = "availableScheduleGroups H qs os ls"
  let ?W = "snd (walkGroups cd ?av 0 allGroups (startIndex H ?av os ls) [])"
  have out: "updateOrders H qs os ls = ?W"
    using g by (simp add: updateOrders_groups cd_def allGroups_def)
  {
    assume "(k, v) \<in> set (updateOrders H qs os ls)"
    then have look: "map_of ?W k = Some v" by (simp add: out walk_mem_iff)
    then have "k \<in> fst ` set ?W" by (metis map_of_eq_None_iff option.distinct(1))
    from walk_keys_range[OF this] obtain j where k: "k = GroupIx j" by auto
    from look[unfolded k walk_lookup] have
      j: "j < length allGroups" "relevantKeys cd (allGroups ! j) \<noteq> []"
      and v: "v = Grouped (groupEntry cd (allGroups ! j) j
                   (startIndex H ?av os ls
                      + int (length (filter (isAvailable ?av) (take j allGroups))))
                   (relevantKeys cd (allGroups ! j)))"
      by (auto split: if_splits)
    show "\<exists>i e. k = GroupIx i \<and> v = Grouped e \<and> i < length allGroups
             \<and> date e = allGroups ! i \<and> key e = i \<and> keys e \<noteq> []
             \<and> set (keys e)
                 = {ident. \<exists>r. map_of cd ident = Some r
                      \<and> arrIncludes (allGroups ! i) (field r ''date'')}"
      using k j v by (simp add: relevantKeys_set)
  }
  {
    assume "i < length allGroups
            \<and> {ident. \<exists>r. map_of cd ident = Some r
                  \<and> arrIncludes (allGroups ! i) (field r ''date'')} = {}"
    then have "set (relevantKeys cd (allGroups ! i)) = {}"
      by (simp only: relevantKeys_set)
    then have "relevantKeys cd (allGroups ! i) = []"
      by simp
    then have "map_of ?W (GroupIx i) = None" by (simp add: walk_lookup)
    then show "GroupIx i \<notin> fst ` set (updateOrders H qs os ls)"
      by (simp add: out map_of_eq_None_iff)
  }
qed

theorem only_claimed_groups_have_entries_witness:
  "groupsOrders exSchedule exSnapshotLate exCustom
   \<and> (GroupIx 1,
       Grouped \<lparr>date = [''2021-03-03''], key = 1, index = 0, keys = [''y''],
                days = [(''2021-03-03'',
                         [(''title'', JStr ''Lunch''), (''date'', JStr ''2021-03-03''),
                          (''key'', JStr ''y'')])]\<rparr>)
       \<in> set (updateOrders exSchedule exSnapshotLate exCustom exLunch)
   \<and> allScheduleGroups exSchedule exSnapshotLate exCustom exLunch ! 1 = [''2021-03-03'']
   \<and> {ident. \<exists>r. map_of (collectionDataOf exSchedule exSnapshotLate exCustom) ident = Some r
          \<and> arrIncludes (allScheduleGroups exSchedule exSnapshotLate exCustom exLunch ! 1)
                (field r ''date'')} = {''y''}
   \<and> relevantKeys (collectionDataOf exSchedule exSnapshotLate exCustom)
        (allScheduleGroups exSchedule exSnapshotLate exCustom exLunch ! 0) = []
   \<and> GroupIx 0 \<notin> fst ` set (updateOrders exSchedule exSnapshotLate exCustom exLunch)"
proof -
  let ?e = "\<lparr>date = [''2021-03-03''], key = 1, index = 0, keys = [''y''],
                days = [(''2021-03-03'',
                         [(''title'', JStr ''Lunch''), (''date'', JStr ''2021-03-03''),
                          (''key'', JStr ''y'')])]\<rparr>"
  let ?cd = "collectionDataOf exSchedule exSnapshotLate exCustom"
  let ?all = "allScheduleGroups exSchedule exSnapshotLate exCustom exLunch"
  have h1: "groupsOrders exSchedule exSnapshotLate exCustom" by code_simp
  have h2: "(GroupIx 1, Grouped ?e) \<in> set (updateOrders exSchedule exSnapshotLate exCustom exLunch)"
    by code_simp
  have h3: "?all ! 1 = [''2021-03-03'']" by code_simp
  have h4: "(0::nat) < length ?all" by code_simp
  have h5: "relevantKeys ?cd (?all ! 0) = []" by code_simp
  have h6: "{ident. \<exists>r. map_of ?cd ident = Some r \<and> arrIncludes (?all ! 0) (field r ''date'')} = {}"
    using relevantKeys_set[of ?cd "?all ! 0"] h5 by simp
  note t = only_claimed_groups_have_entries[where H = exSchedule and qs = exSnapshotLate
      and os = exCustom and ls = exLunch and k = "GroupIx 1" and v = "Grouped ?e" and i = 0]
  from t h1 h2 have "set (keys ?e)
      = {ident. \<exists>r. map_of ?cd ident = Some r \<and> arrIncludes (?all ! 1) (field r ''date'')}"
    by auto
  then have c1: "{ident. \<exists>r. map_of ?cd ident = Some r
      \<and> arrIncludes (?all ! 1) (field r ''date'')} = {''y''}"
    by simp
  from t h1 h4 h6 have c2: "GroupIx 0 \<notin> fst ` set (updateOrders exSchedule exSnapshotLate exCustom exLunch)"
    by blast
  show ?thesis using h1 h2 h3 h5 c1 c2 by blast
qed

text \<open>
  C1. With a CUSTOM schedule and at least one surviving record the counter does not
  start as the claim says. It starts at \<open>-1\<close> when there is an available group and
  the first available group is not before its cutoff, and at \<open>0\<close> otherwise, also
  when no group is available at all. Walking the groups adds one for each group
  whose first date is the first date of an available group, and a claimed group is
  stored with the value the counter has when the walk reaches it.
\<close>

theorem counter_start_and_advance:
  fixes H :: "('r, 's) Schedule" and qs os ls
  defines "cd \<equiv> collectionDataOf H qs os"
    and "avail \<equiv> availableScheduleGroups H qs os ls"
    and "allGroups \<equiv> allScheduleGroups H qs os ls"
  shows
    "groupsOrders H qs os \<longrightarrow>
       startIndex H avail os ls
         = (case avail of [] \<Rightarrow> 0 | g # rest \<Rightarrow> if isBeforeCutoff H g os ls then 0 else - 1)
       \<and> fst (walkGroups cd avail 0 allGroups (startIndex H avail os ls) [])
           = startIndex H avail os ls + int (length (filter (isAvailable avail) allGroups))
       \<and> (map_of (updateOrders H qs os ls) (GroupIx i) = Some (Grouped e) \<longrightarrow>
            index e = startIndex H avail os ls
                        + int (length (filter (isAvailable avail) (take i allGroups))))"
proof (intro impI conjI)
  show "startIndex H avail os ls
         = (case avail of [] \<Rightarrow> 0 | g # rest \<Rightarrow> if isBeforeCutoff H g os ls then 0 else - 1)"
    by (simp add: startIndex_def includesCutoff_def split: list.splits)
  show "fst (walkGroups cd avail 0 allGroups (startIndex H avail os ls) [])
           = startIndex H avail os ls + int (length (filter (isAvailable avail) allGroups))"
    by (rule walk_fst)
  assume g: "groupsOrders H qs os"
    and "map_of (updateOrders H qs os ls) (GroupIx i) = Some (Grouped e)"
  then have "map_of (snd (walkGroups cd avail 0 allGroups (startIndex H avail os ls) []))
               (GroupIx i) = Some (Grouped e)"
    by (simp add: updateOrders_groups cd_def avail_def allGroups_def)
  then show "index e = startIndex H avail os ls
                        + int (length (filter (isAvailable avail) (take i allGroups)))"
    by (auto simp: walk_lookup split: if_splits)
qed

theorem counter_start_and_advance_witness:
  "groupsOrders exSchedule exSnapshotLate exCustom
   \<and> availableScheduleGroups exSchedule exSnapshotLate exCustom exLunch
       = [[''2021-03-01'', ''2021-03-02'']]
   \<and> isBeforeCutoff exSchedule [''2021-03-01'', ''2021-03-02''] exCustom exLunch = False
   \<and> startIndex exSchedule (availableScheduleGroups exSchedule exSnapshotLate exCustom exLunch)
        exCustom exLunch = - 1
   \<and> map_of (updateOrders exSchedule exSnapshotLate exCustom exLunch) (GroupIx 1)
       = Some (Grouped \<lparr>date = [''2021-03-03''], key = 1, index = 0, keys = [''y''],
                days = [(''2021-03-03'',
                         [(''title'', JStr ''Lunch''), (''date'', JStr ''2021-03-03''),
                          (''key'', JStr ''y'')])]\<rparr>)
   \<and> length (filter (isAvailable (availableScheduleGroups exSchedule exSnapshotLate exCustom exLunch))
         (take 1 (allScheduleGroups exSchedule exSnapshotLate exCustom exLunch))) = 1"
proof -
  let ?e = "\<lparr>date = [''2021-03-03''], key = 1, index = 0, keys = [''y''],
                days = [(''2021-03-03'',
                         [(''title'', JStr ''Lunch''), (''date'', JStr ''2021-03-03''),
                          (''key'', JStr ''y'')])]\<rparr>"
  let ?av = "availableScheduleGroups exSchedule exSnapshotLate exCustom exLunch"
  have h1: "groupsOrders exSchedule exSnapshotLate exCustom" by code_simp
  have h2: "map_of (updateOrders exSchedule exSnapshotLate exCustom exLunch) (GroupIx 1)
       = Some (Grouped ?e)"
    by code_simp
  have h3: "?av = [[''2021-03-01'', ''2021-03-02'']]" by code_simp
  have h4: "isBeforeCutoff exSchedule [''2021-03-01'', ''2021-03-02''] exCustom exLunch = False"
    by code_simp
  note t = counter_start_and_advance[where H = exSchedule and qs = exSnapshotLate
      and os = exCustom and ls = exLunch and i = 1 and e = ?e]
  from t h1 h3 h4 have c1: "startIndex exSchedule ?av exCustom exLunch = - 1"
    by simp
  from t h1 h2 c1 have "index ?e = - 1
      + int (length (filter (isAvailable ?av)
          (take 1 (allScheduleGroups exSchedule exSnapshotLate exCustom exLunch))))"
    by simp
  then have c2: "length (filter (isAvailable ?av)
          (take 1 (allScheduleGroups exSchedule exSnapshotLate exCustom exLunch))) = 1"
    by simp
  show ?thesis using h1 h2 h3 h4 c1 c2 by simp
qed

theorem counter_start_counterexample:
  "groupsOrders exSchedule exSnapshot exCustom
   \<and> availableScheduleGroups exSchedule exSnapshot exCustom exLunch = []
   \<and> startIndex exSchedule (availableScheduleGroups exSchedule exSnapshot exCustom exLunch)
        exCustom exLunch = 0
   \<and> startIndex exSchedule (availableScheduleGroups exSchedule exSnapshot exCustom exLunch)
        exCustom exLunch \<noteq> - 1
   \<and> map index (groupValues (updateOrders exSchedule exSnapshot exCustom exLunch)) = [0, 0]"
  by code_simp

text \<open>
  C4. The first part of the claim fails: a claimed group is stored with the running
  counter, which is non-negative in general. What holds: the index of a claimed
  group is negative exactly when the counter started at \<open>-1\<close> and no available
  group precedes the claimed group. For the identifiers the claim holds under what
  the helpers are meant to provide: a group that is available holds no surviving
  record (the comment in the loop), and no two groups share a date. Then the
  \<^verbatim>\<open>keys\<close> lists together are exactly the surviving records whose date lies in
  a group, and no identifier occurs twice in them.
\<close>

theorem claimed_groups_index_and_ids:
  fixes H :: "('r, 's) Schedule" and qs os ls
  defines "cd \<equiv> collectionDataOf H qs os"
    and "avail \<equiv> availableScheduleGroups H qs os ls"
    and "allGroups \<equiv> allScheduleGroups H qs os ls"
    and "out \<equiv> updateOrders H qs os ls"
  shows
    "groupsOrders H qs os \<longrightarrow>
       (map_of out (GroupIx i) = Some (Grouped e) \<longrightarrow>
          (index e < 0)
            = (includesCutoff H avail os ls
               \<and> filter (isAvailable avail) (take i allGroups) = []))
       \<and> ((\<forall>g\<in>set allGroups. isAvailable avail g \<longrightarrow> relevantKeys cd g = [])
            \<and> distinct (concat allGroups) \<longrightarrow>
            orderIds out = concat (map keys (groupValues out))
            \<and> set (orderIds out)
                = {ident. \<exists>r. map_of cd ident = Some r
                     \<and> (\<exists>g\<in>set allGroups. arrIncludes g (field r ''date''))}
            \<and> distinct (orderIds out))"
proof (intro impI conjI)
  assume g: "groupsOrders H qs os"
  let ?W = "snd (walkGroups cd avail 0 allGroups (startIndex H avail os ls) [])"
  have out: "out = ?W"
    using g by (simp add: out_def updateOrders_groups cd_def avail_def allGroups_def)
  {
    assume "map_of out (GroupIx i) = Some (Grouped e)"
    then have "index e = startIndex H avail os ls
                 + int (length (filter (isAvailable avail) (take i allGroups)))"
      by (auto simp: out walk_lookup split: if_splits)
    then show "(index e < 0)
            = (includesCutoff H avail os ls
               \<and> filter (isAvailable avail) (take i allGroups) = [])"
      by (auto simp: startIndex_def)
  }
  assume h: "(\<forall>g\<in>set allGroups. isAvailable avail g \<longrightarrow> relevantKeys cd g = [])
            \<and> distinct (concat allGroups)"
  show "orderIds out = concat (map keys (groupValues out))"
    unfolding out by (rule walk_orderIds_groupValues)
  have ids: "orderIds out
      = concat (map (\<lambda>g. if isAvailable avail g then [] else relevantKeys cd g) allGroups)"
    unfolding out by (rule walk_orderIds)
  have "set (orderIds out) = (\<Union>g\<in>set allGroups. set (relevantKeys cd g))"
    using h by (auto simp: ids)
  then show "set (orderIds out)
                = {ident. \<exists>r. map_of cd ident = Some r
                     \<and> (\<exists>g\<in>set allGroups. arrIncludes g (field r ''date''))}"
    by (auto simp: relevantKeys_set)
  have "distinct (map fst cd)"
    unfolding cd_def by (rule collectionData_distinct)
  then show "distinct (orderIds out)"
    unfolding ids using h by (intro distinct_claimed_ids) simp_all
qed

theorem claimed_groups_index_and_ids_witness:
  "groupsOrders exSchedule exSnapshotLate exCustom
   \<and> list_all (\<lambda>g. isAvailable (availableScheduleGroups exSchedule exSnapshotLate exCustom exLunch) g
                  = (relevantKeys (collectionDataOf exSchedule exSnapshotLate exCustom) g = []))
       (allScheduleGroups exSchedule exSnapshotLate exCustom exLunch)
   \<and> distinct (concat (allScheduleGroups exSchedule exSnapshotLate exCustom exLunch))
   \<and> orderIds (updateOrders exSchedule exSnapshotLate exCustom exLunch) = [''y'']
   \<and> {ident. \<exists>r. map_of (collectionDataOf exSchedule exSnapshotLate exCustom) ident = Some r
          \<and> (\<exists>g\<in>set (allScheduleGroups exSchedule exSnapshotLate exCustom exLunch).
                arrIncludes g (field r ''date''))} = {''y''}
   \<and> includesCutoff exSchedule
        (availableScheduleGroups exSchedule exSnapshotLate exCustom exLunch) exCustom exLunch
   \<and> filter (isAvailable (availableScheduleGroups exSchedule exSnapshotLate exCustom exLunch))
        (take 1 (allScheduleGroups exSchedule exSnapshotLate exCustom exLunch)) \<noteq> []"
proof -
  let ?e = "\<lparr>date = [''2021-03-03''], key = 1, index = 0, keys = [''y''],
                days = [(''2021-03-03'',
                         [(''title'', JStr ''Lunch''), (''date'', JStr ''2021-03-03''),
                          (''key'', JStr ''y'')])]\<rparr>"
  let ?cd = "collectionDataOf exSchedule exSnapshotLate exCustom"
  let ?av = "availableScheduleGroups exSchedule exSnapshotLate exCustom exLunch"
  let ?all = "allScheduleGroups exSchedule exSnapshotLate exCustom exLunch"
  let ?out = "updateOrders exSchedule exSnapshotLate exCustom exLunch"
  have h1: "groupsOrders exSchedule exSnapshotLate exCustom" by code_simp
  have h2: "list_all (\<lambda>g. isAvailable ?av g = (relevantKeys ?cd g = [])) ?all" by code_simp
  then have h2': "\<forall>g\<in>set ?all. isAvailable ?av g \<longrightarrow> relevantKeys ?cd g = []"
    by (simp add: list_all_iff)
  have h3: "distinct (concat ?all)" by code_simp
  have h4: "map_of ?out (GroupIx 1) = Some (Grouped ?e)" by code_simp
  have h5: "orderIds ?out = [''y'']" by code_simp
  have h6: "includesCutoff exSchedule ?av exCustom exLunch" by code_simp
  note t = claimed_groups_index_and_ids[where H = exSchedule and qs = exSnapshotLate
      and os = exCustom and ls = exLunch and i = 1 and e = ?e]
  from t h1 h2' h3 have "set (orderIds ?out)
      = {ident. \<exists>r. map_of ?cd ident = Some r
           \<and> (\<exists>g\<in>set ?all. arrIncludes g (field r ''date''))}"
    by blast
  then have c1: "{ident. \<exists>r. map_of ?cd ident = Some r
           \<and> (\<exists>g\<in>set ?all. arrIncludes g (field r ''date''))} = {''y''}"
    using h5 by simp
  from t h1 h4 have "(index ?e < 0)
      = (includesCutoff exSchedule ?av exCustom exLunch
         \<and> filter (isAvailable ?av) (take 1 ?all) = [])"
    by blast
  then have c2: "filter (isAvailable ?av) (take 1 ?all) \<noteq> []"
    using h6 by simp
  show ?thesis using h1 h2 h3 h5 h6 c1 c2 by blast
qed

theorem claimed_group_index_counterexample:
  "groupsOrders exSchedule exSnapshotLate exCustom
   \<and> relevantKeys (collectionDataOf exSchedule exSnapshotLate exCustom)
        (allScheduleGroups exSchedule exSnapshotLate exCustom exLunch ! 1) = [''y'']
   \<and> map (\<lambda>e. (key e, keys e, index e))
        (groupValues (updateOrders exSchedule exSnapshotLate exCustom exLunch))
       = [(1, [''y''], 0)]
   \<and> map_of (updateOrders exSchedule exSnapshotLate exCustom exLunch) (GroupIx 1)
       = Some (Grouped \<lparr>date = [''2021-03-03''], key = 1, index = 0, keys = [''y''],
                days = [(''2021-03-03'',
                         [(''title'', JStr ''Lunch''), (''date'', JStr ''2021-03-03''),
                          (''key'', JStr ''y'')])]\<rparr>)"
  by code_simp

text \<open>
  C5. In a CUSTOM reconciliation the entries of the orders state follow the group
  sequence: each entry is stored under the position of its group and the positions
  increase along the object. When the group sequence is ordered by first date (no
  group is followed by one with an earlier first date, under the comparison the
  home screen sorts with), sorting changes nothing: the home screen lists one card
  per entry in the same order, soonest first.
\<close>

theorem entries_keep_group_order:
  fixes H :: "('r, 's) Schedule" and qs os ls
  defines "allGroups \<equiv> allScheduleGroups H qs os ls"
    and "out \<equiv> updateOrders H qs os ls"
  shows
    "groupsOrders H qs os
     \<and> sorted_wrt (\<lambda>g h. \<not> positive (diff (parseISO H (arrFirst g)) (momentOf H (arrFirst h))))
         allGroups \<longrightarrow>
       out = map (\<lambda>e. (GroupIx (key e), Grouped e)) (groupValues out)
       \<and> sorted_wrt (<) (map key (groupValues out))
       \<and> (\<forall>e\<in>set (groupValues out). key e < length allGroups \<and> date e = allGroups ! key e)
       \<and> getOrdersArr H out True = map (\<lambda>e. GroupItem (toCard H e)) (groupValues out)
       \<and> sorted_wrt (\<lambda>a b. \<not> positive (byFirstDate H a b)) (groupValues out)"
proof (intro impI)
  assume a: "groupsOrders H qs os
     \<and> sorted_wrt (\<lambda>g h. \<not> positive (diff (parseISO H (arrFirst g)) (momentOf H (arrFirst h))))
         allGroups"
  let ?av = "availableScheduleGroups H qs os ls"
  let ?cd = "collectionDataOf H qs os"
  let ?W = "snd (walkGroups ?cd ?av 0 allGroups (startIndex H ?av os ls) [])"
  have out: "out = ?W"
    using a by (simp add: out_def updateOrders_groups allGroups_def)
  have p1: "out = map (\<lambda>e. (GroupIx (key e), Grouped e)) (groupValues out)"
    unfolding out by (rule walk_all_grouped[symmetric])
  have p2: "sorted_wrt (<) (map key (groupValues out))"
    unfolding out by (rule walk_keys_increasing)
  have p3: "\<forall>e\<in>set (groupValues out). key e < length allGroups \<and> date e = allGroups ! key e"
    unfolding out using walk_groupValues_props[of _ ?cd ?av 0 allGroups] by auto
  have p5: "sorted_wrt (\<lambda>a b. \<not> positive (byFirstDate H a b)) (groupValues out)"
    unfolding out byFirstDate_def using a
    by (intro walk_groupValues_ordered
          [of "\<lambda>g h. \<not> positive (diff (parseISO H (arrFirst g)) (momentOf H (arrFirst h)))"])
       simp
  have p4: "getOrdersArr H out True = map (\<lambda>e. GroupItem (toCard H e)) (groupValues out)"
    by (simp add: getOrdersArr_def jsSort_ordered[OF p5])
  show "out = map (\<lambda>e. (GroupIx (key e), Grouped e)) (groupValues out)
       \<and> sorted_wrt (<) (map key (groupValues out))
       \<and> (\<forall>e\<in>set (groupValues out). key e < length allGroups \<and> date e = allGroups ! key e)
       \<and> getOrdersArr H out True = map (\<lambda>e. GroupItem (toCard H e)) (groupValues out)
       \<and> sorted_wrt (\<lambda>a b. \<not> positive (byFirstDate H a b)) (groupValues out)"
    using p1 p2 p3 p4 p5 by blast
qed

theorem entries_keep_group_order_witness:
  "groupsOrders exSchedule exSnapshot exCustom
   \<and> sorted_wrt (\<lambda>g h. \<not> positive (diff (parseISO exSchedule (arrFirst g))
                                        (momentOf exSchedule (arrFirst h))))
       (allScheduleGroups exSchedule exSnapshot exCustom exLunch)
   \<and> map date (groupValues (updateOrders exSchedule exSnapshot exCustom exLunch))
       = allScheduleGroups exSchedule exSnapshot exCustom exLunch
   \<and> map key (groupValues (updateOrders exSchedule exSnapshot exCustom exLunch)) = [0, 1]
   \<and> getOrdersArr exSchedule (updateOrders exSchedule exSnapshot exCustom exLunch) True
       = map (\<lambda>e. GroupItem (toCard exSchedule e))
           (groupValues (updateOrders exSchedule exSnapshot exCustom exLunch))"
proof -
  let ?all = "allScheduleGroups exSchedule exSnapshot exCustom exLunch"
  let ?out = "updateOrders exSchedule exSnapshot exCustom exLunch"
  have h1: "groupsOrders exSchedule exSnapshot exCustom" by code_simp
  have h2: "sorted_wrt (\<lambda>g h. \<not> positive (diff (parseISO exSchedule (arrFirst g))
                                        (momentOf exSchedule (arrFirst h)))) ?all"
    by code_simp
  have h3: "map date (groupValues ?out) = ?all" by code_simp
  have h4: "map key (groupValues ?out) = [0, 1]" by code_simp
  note t = entries_keep_group_order[where H = exSchedule and qs = exSnapshot
      and os = exCustom and ls = exLunch]
  from t h1 h2 have "getOrdersArr exSchedule ?out True
       = map (\<lambda>e. GroupItem (toCard exSchedule e)) (groupValues ?out)"
    by blast
  then show ?thesis using h1 h2 h3 h4 by blast
qed

text \<open>
  C6. \<^verbatim>\<open>updateOrders\<close> has no failing branch, and the no-data cases give a
  value: an empty snapshot gives the empty orders state (no group is claimed), a
  CUSTOM reconciliation over an empty group sequence gives the empty orders state,
  and a surviving record whose date is in no group of the sequence is left out of
  every \<^verbatim>\<open>keys\<close> list.
\<close>

theorem no_data_is_not_an_error:
  fixes H :: "('r, 's) Schedule" and qs os ls
  defines "cd \<equiv> collectionDataOf H qs os"
    and "allGroups \<equiv> allScheduleGroups H qs os ls"
  shows
    "updateOrders H [] os ls = []
     \<and> (groupsOrders H qs os \<and> allGroups = [] \<longrightarrow> updateOrders H qs os ls = [])
     \<and> (groupsOrders H qs os \<and> map_of cd ident = Some r
          \<and> (\<forall>g\<in>set allGroups. \<not> arrIncludes g (field r ''date''))
        \<longrightarrow> ident \<notin> set (orderIds (updateOrders H qs os ls)))"
proof (intro conjI impI)
  show "updateOrders H [] os ls = []"
    by (simp add: updateOrders_def groupsOrders_def collectionDataOf_def)
next
  assume "groupsOrders H qs os \<and> allGroups = []"
  then show "updateOrders H qs os ls = []"
    by (simp add: updateOrders_groups allGroups_def)
next
  assume a: "groupsOrders H qs os \<and> map_of cd ident = Some r
          \<and> (\<forall>g\<in>set allGroups. \<not> arrIncludes g (field r ''date''))"
  then have "\<forall>g\<in>set allGroups. ident \<notin> set (relevantKeys cd g)"
    by (auto simp: relevantKeys_set)
  then show "ident \<notin> set (orderIds (updateOrders H qs os ls))"
    using a by (auto simp: updateOrders_groups walk_orderIds cd_def allGroups_def
        split: if_splits)
qed

theorem no_data_is_not_an_error_witness:
  "updateOrders exSchedule [] exCustom exLunch = []
   \<and> groupsOrders (exSchedule\<lparr>today := ''2021-03-04''\<rparr>) exSnapshotLate exCustom
   \<and> allScheduleGroups (exSchedule\<lparr>today := ''2021-03-04''\<rparr>) exSnapshotLate exCustom exLunch = []
   \<and> updateOrders (exSchedule\<lparr>today := ''2021-03-04''\<rparr>) exSnapshotLate exCustom exLunch = []
   \<and> groupsOrders exSchedule exSnapshotLate exCustom
   \<and> map_of (collectionDataOf exSchedule exSnapshotLate exCustom) ''w''
       = Some [(''title'', JStr ''Lunch''), (''date'', JStr ''2021-03-04''), (''key'', JStr ''w'')]
   \<and> list_all (\<lambda>g. \<not> arrIncludes g (JStr ''2021-03-04''))
       (allScheduleGroups exSchedule exSnapshotLate exCustom exLunch)
   \<and> ''w'' \<notin> set (orderIds (updateOrders exSchedule exSnapshotLate exCustom exLunch))"
proof -
  let ?H = "exSchedule\<lparr>today := ''2021-03-04''\<rparr>"
  let ?r = "[(''title'', JStr ''Lunch''), (''date'', JStr ''2021-03-04''), (''key'', JStr ''w'')]"
  have h1: "groupsOrders ?H exSnapshotLate exCustom" by code_simp
  have h2: "allScheduleGroups ?H exSnapshotLate exCustom exLunch = []" by code_simp
  have h3: "groupsOrders exSchedule exSnapshotLate exCustom" by code_simp
  have h4: "map_of (collectionDataOf exSchedule exSnapshotLate exCustom) ''w'' = Some ?r"
    by code_simp
  have h5: "list_all (\<lambda>g. \<not> arrIncludes g (JStr ''2021-03-04''))
       (allScheduleGroups exSchedule exSnapshotLate exCustom exLunch)"
    by code_simp
  have h5': "\<forall>g\<in>set (allScheduleGroups exSchedule exSnapshotLate exCustom exLunch).
      \<not> arrIncludes g (field ?r ''date'')"
    using h5 by (simp add: list_all_iff field_def)
  note t0 = no_data_is_not_an_error[where H = exSchedule and qs = exSnapshotLate
      and os = exCustom and ls = exLunch and ident = "''w''" and r = ?r]
  note t1 = no_data_is_not_an_error[where H = ?H and qs = exSnapshotLate
      and os = exCustom and ls = exLunch and ident = "''w''" and r = ?r]
  from t0 have c0: "updateOrders exSchedule [] exCustom exLunch = []" by blast
  from t1 h1 h2 have c1: "updateOrders ?H exSnapshotLate exCustom exLunch = []" by blast
  from t0 h3 h4 h5' have c2:
    "''w'' \<notin> set (orderIds (updateOrders exSchedule exSnapshotLate exCustom exLunch))"
    by blast
  show ?thesis using c0 h1 h2 c1 h3 h4 h5 c2 by blast
qed

text \<open>
  C2. Document identifiers are unique in a snapshot. A document whose date is
  strictly before the cutoff date is not in \<^verbatim>\<open>collectionData\<close>, its identifier is
  nowhere in the orders state and its record is not among the records of the
  orders state. A document whose date is on or after the cutoff date is in
  \<^verbatim>\<open>collectionData\<close> with its record, and when the records are the orders state
  (no CUSTOM reconciliation) it is in the orders state.
\<close>

theorem stale_orders_are_dropped:
  fixes H :: "('r, 's) Schedule" and qs os ls
  defines "cd \<equiv> collectionDataOf H qs os"
    and "out \<equiv> updateOrders H qs os ls"
  shows
    "distinct (map doc_id qs) \<and> d \<in> set qs
     \<and> parseISO H (field (doc_data d) ''date'') = Some x \<and> getCutoffDate H os = Some c \<longrightarrow>
       (x < c \<longrightarrow>
          doc_id d \<notin> fst ` set cd \<and> doc_id d \<notin> set (orderIds out)
          \<and> docRecord d \<notin> set (orderRecords out))
       \<and> (c \<le> x \<longrightarrow>
            map_of cd (doc_id d) = Some (docRecord d)
            \<and> (\<not> groupsOrders H qs os \<longrightarrow>
                 map_of out (DocId (doc_id d)) = Some (Single (docRecord d))))"
proof (intro impI conjI)
  assume a: "distinct (map doc_id qs) \<and> d \<in> set qs
     \<and> parseISO H (field (doc_data d) ''date'') = Some x \<and> getCutoffDate H os = Some c"
  then have inj: "inj_on doc_id (set qs)" by (simp add: distinct_map)
  have surv: "survives H (getCutoffDate H os) (doc_data d) = (c \<le> x)"
    using a by (simp add: survives_def isSameOrAfter_def)
  {
    assume stale: "x < c"
    show notin: "doc_id d \<notin> fst ` set cd"
    proof
      assume "doc_id d \<in> fst ` set cd"
      then obtain d' where d': "d' \<in> set qs" "survives H (getCutoffDate H os) (doc_data d')"
        "doc_id d' = doc_id d"
        unfolding cd_def collectionData_keys by auto
      with inj a have "d' = d" by (auto dest: inj_onD)
      with d' surv stale show False by simp
    qed
    then show "doc_id d \<notin> set (orderIds out)"
      unfolding out_def cd_def using orderIds_from_collection[of "doc_id d" H qs os ls] by blast
    show "docRecord d \<notin> set (orderRecords out)"
    proof
      assume "docRecord d \<in> set (orderRecords out)"
      from orderRecords_from_collection[OF this[unfolded out_def]]
      obtain k where k: "map_of cd k = Some (docRecord d)" unfolding cd_def by blast
      from collectionData_lookup[OF k[unfolded cd_def]]
      obtain d' where d': "k = doc_id d'" "docRecord d = docRecord d'" by blast
      have "JStr (doc_id d) = JStr (doc_id d')"
        using key_docRecord[of d] key_docRecord[of d'] d'(2) by simp
      then have "k = doc_id d" using d'(1) by simp
      with k have "doc_id d \<in> fst ` set cd"
        by (metis map_of_eq_None_iff option.distinct(1))
      with notin show False by simp
    qed
  }
  {
    assume "c \<le> x"
    with surv a show look: "map_of cd (doc_id d) = Some (docRecord d)"
      unfolding cd_def by (intro collectionData_survivor) simp_all
    assume ng: "\<not> groupsOrders H qs os"
    have "(doc_id d, docRecord d) \<in> set cd" using look by (rule map_of_SomeD)
    then have "(DocId (doc_id d), Single (docRecord d)) \<in> set out"
      unfolding out_def updateOrders_records[OF ng] cd_def by force
    moreover have "distinct (map fst out)"
      unfolding out_def updateOrders_records[OF ng]
      using collectionData_distinct[of H qs os]
      by (simp add: distinct_map comp_def case_prod_beta inj_on_def)
    ultimately show "map_of out (DocId (doc_id d)) = Some (Single (docRecord d))"
      by simp
  }
qed

theorem stale_orders_are_dropped_witness:
  "distinct (map doc_id exSnapshot)
   \<and> parseISO exSchedule (field (doc_data (exOrder ''z'' ''2021-03-01'' ''u1'')) ''date'') = Some 1
   \<and> parseISO exSchedule (field (doc_data (exOrder ''x'' ''2021-03-02'' ''u1'')) ''date'') = Some 2
   \<and> getCutoffDate exSchedule exDaily = Some 2
   \<and> ''z'' \<notin> set (orderIds (updateOrders exSchedule exSnapshot exDaily exLunch))
   \<and> docRecord (exOrder ''z'' ''2021-03-01'' ''u1'')
       \<notin> set (orderRecords (updateOrders exSchedule exSnapshot exDaily exLunch))
   \<and> map_of (updateOrders exSchedule exSnapshot exDaily exLunch) (DocId ''x'')
       = Some (Single (docRecord (exOrder ''x'' ''2021-03-02'' ''u1'')))"
proof -
  let ?z = "exOrder ''z'' ''2021-03-01'' ''u1''"
  let ?x = "exOrder ''x'' ''2021-03-02'' ''u1''"
  have h1: "distinct (map doc_id exSnapshot)" by code_simp
  have h2: "?z \<in> set exSnapshot" "?x \<in> set exSnapshot" by (simp_all add: exSnapshot_def)
  have h3: "parseISO exSchedule (field (doc_data ?z) ''date'') = Some 1" by code_simp
  have h4: "parseISO exSchedule (field (doc_data ?x) ''date'') = Some 2" by code_simp
  have h5: "getCutoffDate exSchedule exDaily = Some 2" by code_simp
  have h6: "\<not> groupsOrders exSchedule exSnapshot exDaily" by code_simp
  have ids: "doc_id ?z = ''z''" "doc_id ?x = ''x''" by (simp_all add: exOrder_def)
  note tz = stale_orders_are_dropped[where H = exSchedule and qs = exSnapshot and os = exDaily
      and ls = exLunch and d = ?z and x = 1 and c = 2]
  note tx = stale_orders_are_dropped[where H = exSchedule and qs = exSnapshot and os = exDaily
      and ls = exLunch and d = ?x and x = 2 and c = 2]
  from tz h1 h2(1) h3 h5 have
    c1: "doc_id ?z \<notin> set (orderIds (updateOrders exSchedule exSnapshot exDaily exLunch))"
    and c2: "docRecord ?z \<notin> set (orderRecords (updateOrders exSchedule exSnapshot exDaily exLunch))"
    by simp_all
  from tx h1 h2(2) h4 h5 h6 have
    c3: "map_of (updateOrders exSchedule exSnapshot exDaily exLunch) (DocId (doc_id ?x))
       = Some (Single (docRecord ?x))"
    by simp
  show ?thesis using h1 h3 h4 h5 c1 c2 c3 unfolding ids by blast
qed

text \<open>
  C8. No order record of the orders state has a \<^verbatim>\<open>uid\<close> property, and the orders
  state does not depend on the \<^verbatim>\<open>uid\<close> of the documents: two snapshots whose
  documents agree one by one on the identifier and on everything but \<^verbatim>\<open>uid\<close>
  give the same orders state.
\<close>

theorem uid_is_stripped:
  "(\<forall>r\<in>set (orderRecords (updateOrders H qs os ls)). ''uid'' \<notin> fst ` set r)
   \<and> (list_all2 (\<lambda>d d'. doc_id d = doc_id d'
                   \<and> AList.delete ''uid'' (doc_data d) = AList.delete ''uid'' (doc_data d'))
         qs qs'
      \<longrightarrow> updateOrders H qs os ls = updateOrders H qs' os ls)"
proof (intro conjI ballI impI)
  fix r assume "r \<in> set (orderRecords (updateOrders H qs os ls))"
  from orderRecords_from_collection[OF this] obtain k
    where "map_of (collectionDataOf H qs os) k = Some r" by blast
  from collectionData_lookup[OF this] obtain d where "r = docRecord d" by blast
  then show "''uid'' \<notin> fst ` set r" by (simp add: uid_notin_docRecord)
next
  assume rel: "list_all2 (\<lambda>d d'. doc_id d = doc_id d'
                   \<and> AList.delete ''uid'' (doc_data d) = AList.delete ''uid'' (doc_data d'))
         qs qs'"
  have step: "collectDoc H c d acc = collectDoc H c d' acc"
    if "doc_id d = doc_id d'"
      and "AList.delete ''uid'' (doc_data d) = AList.delete ''uid'' (doc_data d')"
    for d d' c acc
  proof -
    have "docRecord d = docRecord d'"
      using that by (rule docRecord_same_uid_free)
    then show ?thesis unfolding collectDoc_def Let_def using that(1) by simp
  qed
  have folds: "fold (collectDoc H c) qs acc = fold (collectDoc H c) qs' acc" for c acc
    using rel
  proof (induction qs qs' arbitrary: acc rule: list_all2_induct)
    case Nil
    then show ?case by simp
  next
    case (Cons d qs d' qs')
    have "collectDoc H c d acc = collectDoc H c d' acc"
      using Cons.hyps(1) by (intro step) simp_all
    then show ?case using Cons.IH by simp
  qed
  have cd: "collectionDataOf H qs os = collectionDataOf H qs' os"
    by (simp add: collectionDataOf_def folds)
  have dates: "snapshotDates qs = snapshotDates qs'"
    unfolding snapshotDates_def using rel
  proof (induction qs qs' rule: list_all2_induct)
    case Nil
    then show ?case by simp
  next
    case (Cons d qs d' qs')
    have "field (doc_data d) ''date'' = field (doc_data d') ''date''"
      using Cons.hyps(1) by (intro date_uid_free) simp
    then show ?case using Cons.IH by simp
  qed
  have av: "availableScheduleGroups H qs os ls = availableScheduleGroups H qs' os ls"
    by (simp add: availableScheduleGroups_def cd dates)
  have al: "allScheduleGroups H qs os ls = allScheduleGroups H qs' os ls"
    by (simp add: allScheduleGroups_def dates)
  show "updateOrders H qs os ls = updateOrders H qs' os ls"
    unfolding updateOrders_def groupsOrders_def cd av al by (rule refl)
qed

theorem uid_is_stripped_witness:
  "list_all2 (\<lambda>d d'. doc_id d = doc_id d'
                \<and> AList.delete ''uid'' (doc_data d) = AList.delete ''uid'' (doc_data d'))
     exSnapshot
     [exOrder ''z'' ''2021-03-01'' ''u2'', exOrder ''x'' ''2021-03-02'' ''u3'',
      exOrder ''y'' ''2021-03-03'' ''u4'']
   \<and> updateOrders exSchedule exSnapshot exCustom exLunch
       = updateOrders exSchedule
           [exOrder ''z'' ''2021-03-01'' ''u2'', exOrder ''x'' ''2021-03-02'' ''u3'',
            exOrder ''y'' ''2021-03-03'' ''u4''] exCustom exLunch
   \<and> orderRecords (updateOrders exSchedule exSnapshot exCustom exLunch)
       = [[(''title'', JStr ''Lunch''), (''date'', JStr ''2021-03-02''), (''key'', JStr ''x'')],
          [(''title'', JStr ''Lunch''), (''date'', JStr ''2021-03-03''), (''key'', JStr ''y'')]]
   \<and> list_all (\<lambda>r. ''uid'' \<notin> fst ` set r)
       (orderRecords (updateOrders exSchedule exSnapshot exCustom exLunch))"
proof -
  let ?qs' = "[exOrder ''z'' ''2021-03-01'' ''u2'', exOrder ''x'' ''2021-03-02'' ''u3'',
      exOrder ''y'' ''2021-03-03'' ''u4'']"
  have h1: "list_all2 (\<lambda>d d'. doc_id d = doc_id d'
                \<and> AList.delete ''uid'' (doc_data d) = AList.delete ''uid'' (doc_data d'))
     exSnapshot ?qs'"
    by code_simp
  have h2: "orderRecords (updateOrders exSchedule exSnapshot exCustom exLunch)
       = [[(''title'', JStr ''Lunch''), (''date'', JStr ''2021-03-02''), (''key'', JStr ''x'')],
          [(''title'', JStr ''Lunch''), (''date'', JStr ''2021-03-03''), (''key'', JStr ''y'')]]"
    by code_simp
  note t = uid_is_stripped[where H = exSchedule and qs = exSnapshot and os = exCustom
      and ls = exLunch and qs' = ?qs']
  from t h1 have c1: "updateOrders exSchedule exSnapshot exCustom exLunch
       = updateOrders exSchedule ?qs' exCustom exLunch"
    by blast
  from t have c2: "list_all (\<lambda>r. ''uid'' \<notin> fst ` set r)
       (orderRecords (updateOrders exSchedule exSnapshot exCustom exLunch))"
    unfolding list_all_iff by blast
  show ?thesis using h1 h2 c1 c2 by blast
qed

text \<open>
  C3. \<^verbatim>\<open>updateOrders\<close> takes the snapshot and the two schedules; the current day
  is not handed to it, it reads the clock itself (\<^verbatim>\<open>moment()\<close>) and passes the
  day to the helpers. So the same three arguments can give different orders states
  on different days. What holds is determinism given the clock: two invocations
  on the same arguments that read the same day, and whose helpers return the same
  values, give the same orders state.
\<close>

theorem same_clock_same_orders:
  "today H = today H'
   \<and> maxISO H (snapshotDates qs) = maxISO H' (snapshotDates qs)
   \<and> getCutoffDate H os = getCutoffDate H' os
   \<and> (\<forall>d\<in>set qs. parseISO H (field (doc_data d) ''date'')
                      = parseISO H' (field (doc_data d) ''date''))
   \<and> getValidOrderDates H = getValidOrderDates H'
   \<and> getLunchSchedule H = getLunchSchedule H'
   \<and> getScheduleGroups H = getScheduleGroups H'
   \<and> isBeforeCutoff H = isBeforeCutoff H'
   \<longrightarrow> updateOrders H qs os ls = updateOrders H' qs os ls"
proof
  assume a: "today H = today H'
   \<and> maxISO H (snapshotDates qs) = maxISO H' (snapshotDates qs)
   \<and> getCutoffDate H os = getCutoffDate H' os
   \<and> (\<forall>d\<in>set qs. parseISO H (field (doc_data d) ''date'')
                      = parseISO H' (field (doc_data d) ''date''))
   \<and> getValidOrderDates H = getValidOrderDates H'
   \<and> getLunchSchedule H = getLunchSchedule H'
   \<and> getScheduleGroups H = getScheduleGroups H'
   \<and> isBeforeCutoff H = isBeforeCutoff H'"
  have step: "collectDoc H (getCutoffDate H os) d acc = collectDoc H' (getCutoffDate H' os) d acc"
    if "d \<in> set qs" for d acc
    using a that by (simp add: collectDoc_alt survives_def)
  have folds: "set ds \<subseteq> set qs \<Longrightarrow>
      fold (collectDoc H (getCutoffDate H os)) ds acc
        = fold (collectDoc H' (getCutoffDate H' os)) ds acc" for ds acc
    by (induction ds arbitrary: acc) (simp_all add: step)
  have cd: "collectionDataOf H qs os = collectionDataOf H' qs os"
    by (simp add: collectionDataOf_def folds)
  have av: "availableScheduleGroups H qs os ls = availableScheduleGroups H' qs os ls"
    using a by (simp add: availableScheduleGroups_def cd)
  have al: "allScheduleGroups H qs os ls = allScheduleGroups H' qs os ls"
    using a by (simp add: allScheduleGroups_def)
  have st: "startIndex H avail os ls = startIndex H' avail os ls" for avail
  proof -
    from a have "isBeforeCutoff H = isBeforeCutoff H'" by blast
    then show ?thesis
      by (cases avail) (simp_all add: startIndex_def includesCutoff_def)
  qed
  show "updateOrders H qs os ls = updateOrders H' qs os ls"
    unfolding updateOrders_def groupsOrders_def cd av al st by (rule refl)
qed

theorem same_clock_same_orders_witness:
  "today (exSchedule\<lparr>toReadable := (\<lambda>v. ''later'')\<rparr>) = today exSchedule
   \<and> getCutoffDate (exSchedule\<lparr>toReadable := (\<lambda>v. ''later'')\<rparr>) exCustom
       = getCutoffDate exSchedule exCustom
   \<and> updateOrders (exSchedule\<lparr>toReadable := (\<lambda>v. ''later'')\<rparr>) exSnapshotLate exCustom exLunch
       = updateOrders exSchedule exSnapshotLate exCustom exLunch"
  using same_clock_same_orders[where H = "exSchedule\<lparr>toReadable := (\<lambda>v. ''later'')\<rparr>"
      and H' = exSchedule and qs = exSnapshotLate and os = exCustom and ls = exLunch]
  by simp

theorem clock_is_read_counterexample:
  "updateOrders exSchedule exSnapshotLate exCustom exLunch
     \<noteq> updateOrders (exSchedule\<lparr>today := ''2021-03-03''\<rparr>) exSnapshotLate exCustom exLunch"
  by code_simp

text \<open>
  C7. For a dependent lunch schedule the resolution for a user fails with
  \<^verbatim>\<open>UnresolvedUserSchedule\<close> when the user has no value of the attribute or the
  value has no sub-configuration; and whenever it succeeds on a dependent schedule
  the result is the sub-configuration of the user's value, never another one.
\<close>

theorem unmatched_user_is_unresolved:
  "(dependent lunchConfig
      \<and> (\<forall>v. map_of user (attribute lunchConfig) = Some v
             \<longrightarrow> map_of (subConfigs lunchConfig) v = None)
    \<longrightarrow> resolveForUser lunchConfig user = Inl UnresolvedUserSchedule)
   \<and> (dependent lunchConfig \<and> resolveForUser lunchConfig user = Inr c
      \<longrightarrow> (\<exists>v. map_of user (attribute lunchConfig) = Some v
             \<and> map_of (subConfigs lunchConfig) v = Some (schedule c)))"
  by (auto simp: resolveForUser_def split: option.splits)

theorem unmatched_user_is_unresolved_witness:
  "dependent exDependentLunch
   \<and> map_of [(''site'', ''siteC'')] (attribute exDependentLunch) = Some ''siteC''
   \<and> map_of (subConfigs exDependentLunch) ''siteC'' = None
   \<and> resolveForUser exDependentLunch [(''site'', ''siteC'')] = Inl UnresolvedUserSchedule
   \<and> resolveForUser exDependentLunch [(''site'', ''siteA'')]
       = Inr \<lparr>dependent = False, schedule = ()\<rparr>"
proof -
  have h1: "dependent exDependentLunch" by code_simp
  have h2: "map_of [(''site'', ''siteC'')] (attribute exDependentLunch) = Some ''siteC''"
    by code_simp
  have h3: "map_of (subConfigs exDependentLunch) ''siteC'' = None" by code_simp
  have h4: "resolveForUser exDependentLunch [(''site'', ''siteA'')]
       = Inr \<lparr>dependent = False, schedule = ()\<rparr>"
    by code_simp
  have "resolveForUser exDependentLunch [(''site'', ''siteC'')] = Inl UnresolvedUserSchedule"
    using unmatched_user_is_unresolved[where lunchConfig = exDependentLunch
        and user = "[(''site'', ''siteC'')]"] h1 h2 h3
    by simp
  then show ?thesis using h1 h2 h3 h4 by simp
qed

end
